theory Spec2Isabelle
  imports Main "HOL-Library.Sublist" "HOL-Library.Char_ord"
begin

section \<open>Strings and regular expressions of the scripts\<close>

text \<open>
  The scripts are JavaScript. A string is modelled as a \<open>char list\<close>; its characters
  are the code units up to 255 (ASCII and Latin-1), which is where every pattern, place
  name and stop-word of the scripts lives.

  A regular expression built with the \<open>i\<close> flag and without the \<open>u\<close> flag compares
  characters after canonicalisation. A code unit outside ASCII never canonicalises to an
  ASCII one, and every pattern of the scripts is ASCII, so comparing the ASCII upper-case
  forms is exactly the comparison the engine makes for these patterns.
\<close>

text \<open>
  Characters are compared by their codes. Within ASCII a lower-case letter is its
  upper-case letter plus 32, which is the bit of weight 32 set; the same holds for the
  letters of Latin-1.
\<close>

definition inRange :: "char \<Rightarrow> char \<Rightarrow> char \<Rightarrow> bool" where
  "inRange lo hi c = (lo \<le> c \<and> c \<le> hi)"

fun minus32 :: "char \<Rightarrow> char" where
  "minus32 (Char b0 b1 b2 b3 b4 b5 b6 b7) = Char b0 b1 b2 b3 b4 False b6 b7"

fun plus32 :: "char \<Rightarrow> char" where
  "plus32 (Char b0 b1 b2 b3 b4 b5 b6 b7) = Char b0 b1 b2 b3 b4 True b6 b7"

definition canon :: "char \<Rightarrow> char" where
  "canon c = (if inRange CHR ''a'' CHR ''z'' c then minus32 c else c)"

text \<open>The class \<open>\w\<close>: letters, digits and the underscore (ASCII only without \<open>u\<close>).\<close>

definition wordChar :: "char \<Rightarrow> bool" where
  "wordChar c = (inRange CHR ''A'' CHR ''Z'' c \<or> inRange CHR ''a'' CHR ''z'' c
                 \<or> inRange CHR ''0'' CHR ''9'' c \<or> c = CHR ''_'')"

text \<open>
  The patterns of the scripts are sequences of literal characters, optionally wrapped in
  the assertion \<open>\b\<close>: none of the strings they are built from holds a metacharacter.
  \<open>Ch c\<close> consumes one character equal to \<open>c\<close> up to case; \<open>B\<close> is \<open>\b\<close>.
\<close>

datatype atom = Ch char | B

type_synonym RegExp = "atom list"

text \<open>\<open>new RegExp(s, "i")\<close> and \<open>new RegExp(`\\b${s}\\b`, "i")\<close>.\<close>

definition plainRx :: "string \<Rightarrow> RegExp" where
  "plainRx s = map Ch s"

definition wordRx :: "string \<Rightarrow> RegExp" where
  "wordRx s = B # map Ch s @ [B]"

text \<open>
  \<open>\b\<close> holds between two positions when exactly one of the neighbouring characters is a
  word character; beyond either end of the text there is no word character.
\<close>

definition isWord :: "char option \<Rightarrow> bool" where
  "isWord c = (case c of None \<Rightarrow> False | Some d \<Rightarrow> wordChar d)"

definition boundary :: "char option \<Rightarrow> string \<Rightarrow> bool" where
  "boundary prev t = (isWord prev \<noteq> isWord (case t of [] \<Rightarrow> None | d # _ \<Rightarrow> Some d))"

text \<open>
  \<open>matchHere r prev t\<close>: the pattern \<open>r\<close> matches at the current position, where \<open>prev\<close>
  is the character just before it and \<open>t\<close> the text from it on.
\<close>

fun matchHere :: "RegExp \<Rightarrow> char option \<Rightarrow> string \<Rightarrow> bool" where
  "matchHere [] prev t = True"
| "matchHere (B # r) prev t = (if boundary prev t then matchHere r prev t else False)"
| "matchHere (Ch c # r) prev [] = False"
| "matchHere (Ch c # r) prev (d # t) = (if canon c = canon d then matchHere r (Some d) t else False)"

text \<open>The engine tries every start position from left to right.\<close>

fun search :: "RegExp \<Rightarrow> char option \<Rightarrow> string \<Rightarrow> bool" where
  "search r prev [] = matchHere r prev []"
| "search r prev (d # t) = (if matchHere r prev (d # t) then True else search r (Some d) t)"

text \<open>\<open>rx.test(t)\<close> for a regular expression without the \<open>g\<close> flag (no state is kept).\<close>

definition test :: "RegExp \<Rightarrow> string \<Rightarrow> bool" where
  "test rx t = search rx None t"

text \<open>\<open>xs.some(p)\<close>\<close>

fun some :: "('a \<Rightarrow> bool) \<Rightarrow> 'a list \<Rightarrow> bool" where
  "some p [] = False"
| "some p (x # xs) = (if p x then True else some p xs)"

section \<open>The classifier of the fetch script\<close>

definition INCLUDE_words :: "string list" where
  "INCLUDE_words =
    [''election'', ''by-election'', ''by election'',
     ''council'', ''councillor'', ''council tax'', ''local plan'', ''mayor'', ''combined authority'',
     ''parliament'', ''mp '', ''mps '', ''msps'', ''ms '', ''senedd'', ''stormont'', ''westminster'', ''whitehall'',
     ''manifesto'', ''policy'', ''pledge'', ''bill'', ''act'', ''legislation'', ''committee'', ''select committee'',
     ''poll'', ''polling'', ''mrp'', ''seat projection'', ''swing'', ''constituency'',
     ''budget'', ''spending'', ''tax'', ''nhs'', ''schools'', ''housing'', ''planning'', ''immigration'', ''benefits'',
     ''devolution'', ''transport'', ''rail'', ''buses'', ''clean air'', ''ulez'', ''levelling up'',
     ''police commissioner'', ''pcc'', ''crime'', ''justice'']"

definition INCLUDE :: "RegExp list" where
  "INCLUDE = map wordRx INCLUDE_words"

definition EXCLUDE_words :: "string list" where
  "EXCLUDE_words =
    [''strictly come dancing'', ''strictly'', ''love island'', ''big brother'', ''x factor'',
     ''britain'' @ [CHR 0x27] @ ''s got talent'',
     ''premier league'', ''champions league'', ''transfer'', ''fixture'', ''line-up'', ''lineup'', ''goal'', ''match report'',
     ''celebrity'', ''gossip'', ''royal family'', ''soap'', ''coronation street'', ''eastenders'', ''emmerdale'',
     ''lotto'', ''lottery'', ''horoscope'', ''weather warning'']"

definition EXCLUDE :: "RegExp list" where
  "EXCLUDE = map plainRx EXCLUDE_words"

text \<open>
  A property read from a feed entry or from a JSON record is a string, \<open>null\<close>, or
  \<open>undefined\<close> when the property is absent.
\<close>

datatype jsval = Undefined | Null | Str string

text \<open>Truthiness: \<open>undefined\<close>, \<open>null\<close> and the empty string are falsy.\<close>

definition truthy :: "jsval \<Rightarrow> bool" where
  "truthy v = (case v of Str s \<Rightarrow> s \<noteq> [] | _ \<Rightarrow> False)"

text \<open>\<open>a || b\<close>\<close>

definition orElse :: "jsval \<Rightarrow> jsval \<Rightarrow> jsval" where
  "orElse a b = (if truthy a then a else b)"

text \<open>\<open>v || ""\<close>, a string in every case.\<close>

definition orEmpty :: "jsval \<Rightarrow> string" where
  "orEmpty v = (case v of Str s \<Rightarrow> s | _ \<Rightarrow> [])"

text \<open>\<open>`${v}`\<close>: the string conversion of a template literal.\<close>

definition template :: "jsval \<Rightarrow> string" where
  "template v = (case v of Undefined \<Rightarrow> ''undefined'' | Null \<Rightarrow> ''null'' | Str s \<Rightarrow> s)"

text \<open>
  The text the classifier searches: \<open>(title||"") + " " + (summary||"")\<close>; the default
  parameters \<open>title=""\<close> and \<open>summary=""\<close> give the same text for \<open>undefined\<close>.
\<close>

definition haystack :: "jsval \<Rightarrow> jsval \<Rightarrow> string" where
  "haystack title summary = orEmpty title @ '' '' @ orEmpty summary"

definition isPolitical :: "jsval \<Rightarrow> jsval \<Rightarrow> bool" where
  "isPolitical title summary =
     (let t = haystack title summary in
      if some (\<lambda>rx. test rx t) EXCLUDE then False
      else some (\<lambda>rx. test rx t) INCLUDE)"

section \<open>The fetch script: sources, feeds and items\<close>

record Source =
  name :: string
  candidates :: "string list"

definition SOURCES :: "Source list" where
  "SOURCES =
    [
     \<lparr>name = ''BBC Politics'', candidates = [''https://feeds.bbci.co.uk/news/politics/rss.xml'']\<rparr>,
     \<lparr>name = ''Guardian Politics'', candidates = [''https://www.theguardian.com/politics/rss'']\<rparr>,
     \<lparr>name = ''Sky Politics'', candidates = [''http://feeds.skynews.com/feeds/rss/politics.xml'', ''https://news.sky.com/feeds/rss/politics.xml'']\<rparr>,
     \<lparr>name = ''Independent UK Politics'', candidates = [''https://www.independent.co.uk/news/uk/politics/rss'']\<rparr>,
     \<lparr>name = ''Financial Times UK/Politics'', candidates = [''https://www.ft.com/world/uk?format=rss'', ''https://www.ft.com/uk-politics?format=rss'']\<rparr>,
     \<lparr>name = ''The Bolton News'', candidates = [''https://www.theboltonnews.co.uk/news/rss'']\<rparr>,
     \<lparr>name = ''Wigan Today'', candidates = [''https://www.wigantoday.net/rss'', ''https://www.wigantoday.net/news/rss'', ''https://www.wigantoday.net/politics/rss'']\<rparr>,
     \<lparr>name = ''Manchester Evening News'', candidates = [''https://www.manchestereveningnews.co.uk/?service=rss'']\<rparr>,
     \<lparr>name = ''Liverpool Echo'', candidates = [''https://www.liverpoolecho.co.uk/?service=rss'']\<rparr>,
     \<lparr>name = ''Lancashire Evening Post'', candidates = [''https://www.lep.co.uk/rss'', ''https://www.lep.co.uk/news/rss'']\<rparr>,
     \<lparr>name = ''Blackpool Gazette'', candidates = [''https://www.blackpoolgazette.co.uk/rss'', ''https://www.blackpoolgazette.co.uk/news/rss'']\<rparr>,
     \<lparr>name = ''York Press'', candidates = [''https://www.yorkpress.co.uk/news/rss'']\<rparr>,
     \<lparr>name = ''Northern Echo'', candidates = [''https://www.thenorthernecho.co.uk/news/rss'']\<rparr>,
     \<lparr>name = ''The Scarborough News'', candidates = [''https://www.thescarboroughnews.co.uk/rss'']\<rparr>,
     \<lparr>name = ''Leeds Live'', candidates = [''https://www.leeds-live.co.uk/?service=rss'']\<rparr>,
     \<lparr>name = ''Yorkshire Post'', candidates = [''https://www.yorkshirepost.co.uk/rss'']\<rparr>,
     \<lparr>name = ''Hull Daily Mail'', candidates = [''https://www.hulldailymail.co.uk/?service=rss'']\<rparr>,
     \<lparr>name = ''Sheffield Star'', candidates = [''https://www.thestar.co.uk/rss'', ''https://www.thestar.co.uk/news/rss'']\<rparr>,
     \<lparr>name = ''Bradford Telegraph & Argus'', candidates = [''https://www.thetelegraphandargus.co.uk/news/rss'']\<rparr>,
     \<lparr>name = ''Birmingham Mail'', candidates = [''https://www.birminghammail.co.uk/?service=rss'']\<rparr>,
     \<lparr>name = ''Nottingham Post'', candidates = [''https://www.nottinghampost.com/?service=rss'']\<rparr>,
     \<lparr>name = ''Derby Telegraph'', candidates = [''https://www.derbytelegraph.co.uk/?service=rss'']\<rparr>,
     \<lparr>name = ''Leicester Mercury'', candidates = [''https://www.leicestermercury.co.uk/?service=rss'']\<rparr>,
     \<lparr>name = ''Coventry Telegraph'', candidates = [''https://www.coventrytelegraph.net/?service=rss'']\<rparr>,
     \<lparr>name = ''Stoke Sentinel'', candidates = [''https://www.stokesentinel.co.uk/?service=rss'']\<rparr>,
     \<lparr>name = ''KentOnline (index)'', candidates = [''https://www.kentonline.co.uk/rss-feeds/'']\<rparr>,
     \<lparr>name = ''Oxford Mail'', candidates = [''https://www.oxfordmail.co.uk/news/rss/'']\<rparr>,
     \<lparr>name = ''Cambridgeshire Live'', candidates = [''https://www.cambridge-news.co.uk/?service=rss'']\<rparr>,
     \<lparr>name = ''Essex Live'', candidates = [''https://www.essexlive.news/?service=rss'']\<rparr>,
     \<lparr>name = ''HertsLive'', candidates = [''https://www.hertfordshiremercury.co.uk/?service=rss'']\<rparr>,
     \<lparr>name = ''Suffolk News (East Anglian Daily Times)'', candidates = [''https://www.eadt.co.uk/news/rss'']\<rparr>,
     \<lparr>name = ''Portsmouth News'', candidates = [''https://www.portsmouth.co.uk/rss'', ''https://www.portsmouth.co.uk/news/rss'']\<rparr>,
     \<lparr>name = ''Bristol Post'', candidates = [''https://www.bristolpost.co.uk/?service=rss'']\<rparr>,
     \<lparr>name = ''Somerset Live'', candidates = [''https://www.somersetlive.co.uk/?service=rss'']\<rparr>,
     \<lparr>name = ''Gloucestershire Live'', candidates = [''https://www.gloucestershirelive.co.uk/?service=rss'']\<rparr>,
     \<lparr>name = ''Plymouth Herald'', candidates = [''https://www.plymouthherald.co.uk/?service=rss'']\<rparr>,
     \<lparr>name = ''Cornwall Live'', candidates = [''https://www.cornwalllive.com/?service=rss'']\<rparr>,
     \<lparr>name = ''Evening Standard'', candidates = [''https://www.standard.co.uk/rss'']\<rparr>,
     \<lparr>name = ''MyLondon'', candidates = [''https://www.mylondon.news/?service=rss'']\<rparr>,
     \<lparr>name = ''Herald Scotland / Glasgow Times'', candidates = [''https://www.heraldscotland.com/news/rss'', ''https://www.glasgowtimes.co.uk/news/rss'']\<rparr>,
     \<lparr>name = ''The Scotsman'', candidates = [''https://www.scotsman.com/rss'', ''https://www.scotsman.com/news/rss'']\<rparr>,
     \<lparr>name = ''WalesOnline'', candidates = [''https://www.walesonline.co.uk/?service=rss'']\<rparr>,
     \<lparr>name = ''Belfast Live'', candidates = [''https://www.belfastlive.co.uk/?service=rss'']\<rparr>,
     \<lparr>name = ''Belfast Telegraph'', candidates = [''https://www.belfasttelegraph.co.uk/rss/'']\<rparr>
    ]"

text \<open>
  An entry of a parsed feed, with the properties the script reads (the record fields of
  the feed and of its entries carry a prefix where an item has a field of the same name).
\<close>

record RawFeedEntry =
  rawTitle :: jsval
  rawLink :: jsval
  isoDate :: jsval
  rawPubDate :: jsval
  contentSnippet :: jsval
  content :: jsval

text \<open>A parsed feed; \<open>feedItems = None\<close> is a feed object without an \<open>items\<close> array.\<close>

record Feed =
  feedTitle :: jsval
  feedItems :: "RawFeedEntry list option"

text \<open>The canonical item, as \<open>normalize\<close> builds it and as \<open>news.json\<close> holds it.\<close>

record NewsItem =
  title :: jsval
  link :: jsval
  pubDate :: jsval
  source :: jsval
  summary :: jsval

text \<open>White space, \<open>\s\<close>: tab, line feed, vertical tab, form feed, carriage return, space, no-break space.\<close>

definition isSpace :: "char \<Rightarrow> bool" where
  "isSpace c = (c \<in> set [CHR 0x09, CHR 0x0A, CHR 0x0B, CHR 0x0C, CHR 0x0D, CHR 0x20, CHR 0xA0])"

text \<open>\<open>s.replace(/\s+/g, " ")\<close>\<close>

function collapseWs :: "string \<Rightarrow> string" where
  "collapseWs [] = []"
| "collapseWs (c # cs) =
     (if isSpace c then CHR '' '' # collapseWs (dropWhile isSpace cs) else c # collapseWs cs)"
  by pat_completeness auto
termination
  by (relation "measure length") (auto simp: length_dropWhile_le less_Suc_eq_le)

text \<open>\<open>s.trim()\<close>\<close>

definition trim :: "string \<Rightarrow> string" where
  "trim s = rev (dropWhile isSpace (rev (dropWhile isSpace s)))"

definition normalize :: "RawFeedEntry \<Rightarrow> string \<Rightarrow> NewsItem" where
  "normalize item sourceTitle =
     \<lparr>title = Str (orEmpty (rawTitle item)),
      link = Str (orEmpty (rawLink item)),
      pubDate = orElse (isoDate item) (orElse (rawPubDate item) Null),
      source = Str sourceTitle,
      summary = Str (trim (collapseWs (orEmpty (orElse (contentSnippet item) (content item)))))\<rparr>"

subsection \<open>Fetching with fallback\<close>

text \<open>
  \<open>parser.parseURL(url)\<close> either rejects with an error or resolves with a feed. The
  network is a state \<open>'w\<close> that every request may change; \<open>P url w\<close> is the outcome of
  the request and the state after it. The courtesy delay before a request has no effect
  on the values. The function also returns the requests it made with their outcomes, in
  order.
\<close>

datatype jserror = Error string

type_synonym 'w parser = "string \<Rightarrow> 'w \<Rightarrow> (jserror + Feed) \<times> 'w"

text \<open>\<open>feed?.items?.length\<close> as a condition.\<close>

definition hasItems :: "Feed \<Rightarrow> bool" where
  "hasItems feed = (case feedItems feed of None \<Rightarrow> False | Some xs \<Rightarrow> xs \<noteq> [])"

fun parseWithFallbackLoop ::
  "'w parser \<Rightarrow> string list \<Rightarrow> jserror option \<Rightarrow> 'w
     \<Rightarrow> (jserror + Feed \<times> string) \<times> (string \<times> (jserror + Feed)) list \<times> 'w" where
  "parseWithFallbackLoop P [] lastErr w =
     (Inl (case lastErr of None \<Rightarrow> Error ''All candidates failed'' | Some e \<Rightarrow> e), [], w)"
| "parseWithFallbackLoop P (url # rest) lastErr w =
     (case P url w of
        (Inl e, w') \<Rightarrow>
          (case parseWithFallbackLoop P rest (Some e) w' of
             (r, reqs, w'') \<Rightarrow> (r, (url, Inl e) # reqs, w''))
      | (Inr feed, w') \<Rightarrow>
          if hasItems feed then (Inr (feed, url), [(url, Inr feed)], w')
          else (case parseWithFallbackLoop P rest lastErr w' of
                  (r, reqs, w'') \<Rightarrow> (r, (url, Inr feed) # reqs, w'')))"

definition parseWithFallback ::
  "'w parser \<Rightarrow> string list \<Rightarrow> 'w
     \<Rightarrow> (jserror + Feed \<times> string) \<times> (string \<times> (jserror + Feed)) list \<times> 'w" where
  "parseWithFallback P cands w = parseWithFallbackLoop P cands None w"

subsection \<open>Dates\<close>

text \<open>
  \<open>Date.parse\<close> belongs to the platform: \<open>D s\<close> is the time value (milliseconds since
  1970-01-01T00:00:00Z) of \<open>new Date(s)\<close> for a non-empty string \<open>s\<close>, or \<open>None\<close>
  for an invalid date, whose time value is \<open>NaN\<close>.
\<close>

type_synonym dateParser = "string \<Rightarrow> int option"

text \<open>The time value of \<open>new Date(v || 0)\<close>.\<close>

definition timeOf :: "dateParser \<Rightarrow> jsval \<Rightarrow> int option" where
  "timeOf D v = (if truthy v then D (orEmpty v) else Some 0)"

text \<open>\<open>a > b\<close> on two dates: false as soon as one time value is \<open>NaN\<close>.\<close>

definition laterThan :: "int option \<Rightarrow> int option \<Rightarrow> bool" where
  "laterThan a b = (case a of None \<Rightarrow> False
                    | Some x \<Rightarrow> (case b of None \<Rightarrow> False | Some y \<Rightarrow> y < x))"

subsection \<open>Maps in insertion order\<close>

text \<open>
  A \<open>Map\<close> iterates in the order in which its keys were first set; setting a key that
  is present replaces the value in place.
\<close>

fun mapSet :: "'k \<Rightarrow> 'v \<Rightarrow> ('k \<times> 'v) list \<Rightarrow> ('k \<times> 'v) list" where
  "mapSet k v [] = [(k, v)]"
| "mapSet k v (e # m) = (if fst e = k then (k, v) # m else e # mapSet k v m)"

subsection \<open>Sorting\<close>

text \<open>
  \<open>Array.prototype.sort\<close> with a comparator: a result of \<open>NaN\<close> (\<open>None\<close>) counts as
  \<open>+0\<close>. The sort is stable, and for a consistent comparator every stable sort returns
  the list that this insertion sort returns. For an inconsistent comparator the language
  leaves the order to the implementation.
\<close>

definition cmpValue :: "int option \<Rightarrow> int" where
  "cmpValue r = (case r of None \<Rightarrow> 0 | Some v \<Rightarrow> v)"

fun insertBy :: "('a \<Rightarrow> 'a \<Rightarrow> int option) \<Rightarrow> 'a \<Rightarrow> 'a list \<Rightarrow> 'a list" where
  "insertBy cmp x [] = [x]"
| "insertBy cmp x (y # ys) =
     (if cmpValue (cmp x y) \<le> 0 then x # y # ys else y # insertBy cmp x ys)"

definition sortJS :: "('a \<Rightarrow> 'a \<Rightarrow> int option) \<Rightarrow> 'a list \<Rightarrow> 'a list" where
  "sortJS cmp xs = foldr (insertBy cmp) xs []"

subsection \<open>The run of the fetch script\<close>

datatype logline = FeedFailed string string | WroteItems nat

text \<open>\<open>`${e?.message || e}`\<close>\<close>

definition errText :: "jserror \<Rightarrow> string" where
  "errText e = (case e of Error m \<Rightarrow> if m \<noteq> [] then m else ''Error'')"

text \<open>\<open>feed.title || src.name\<close>\<close>

definition sourceTitleOf :: "Feed \<Rightarrow> Source \<Rightarrow> string" where
  "sourceTitleOf feed src = (if truthy (feedTitle feed) then orEmpty (feedTitle feed) else name src)"

text \<open>The items one accepted feed contributes: the body of the inner loop of \<open>main\<close>.\<close>

definition fromFeed :: "Feed \<Rightarrow> Source \<Rightarrow> NewsItem list" where
  "fromFeed feed src =
     filter (\<lambda>it. isPolitical (title it) (summary it))
       (map (\<lambda>raw. normalize raw (sourceTitleOf feed src))
          (case feedItems feed of None \<Rightarrow> [] | Some xs \<Rightarrow> xs))"

text \<open>
  The loop over the sources, with its \<open>try\<close>/\<open>catch\<close>: \<open>all\<close> is the array of accepted
  items, \<open>log\<close> the lines written to the console.
\<close>

fun fetchLoop ::
  "'w parser \<Rightarrow> Source list \<Rightarrow> NewsItem list \<Rightarrow> logline list \<Rightarrow> 'w
     \<Rightarrow> NewsItem list \<times> logline list \<times> 'w" where
  "fetchLoop P [] all log w = (all, log, w)"
| "fetchLoop P (src # rest) all log w =
     (case parseWithFallback P (candidates src) w of
        (Inl e, reqs, w') \<Rightarrow>
          fetchLoop P rest all (log @ [FeedFailed (name src) (errText e)]) w'
      | (Inr (feed, url), reqs, w') \<Rightarrow>
          fetchLoop P rest (all @ fromFeed feed src) log w')"

text \<open>\<open>s.toLowerCase()\<close> on the code units up to 255.\<close>

definition lowerChar :: "char \<Rightarrow> char" where
  "lowerChar c =
     (if inRange CHR ''A'' CHR ''Z'' c then plus32 c
      else if inRange (CHR 0xC0) (CHR 0xDE) c \<and> c \<noteq> CHR 0xD7 then plus32 c
      else c)"

definition toLowerCase :: "string \<Rightarrow> string" where
  "toLowerCase s = map lowerChar s"

text \<open>\<open>`${it.source}__${it.title}`.toLowerCase()\<close>\<close>

definition dedupKey :: "NewsItem \<Rightarrow> string" where
  "dedupKey it = toLowerCase (template (source it) @ ''__'' @ template (title it))"

text \<open>The loop that fills the map of the latest item for each key.\<close>

fun dedupLoop ::
  "dateParser \<Rightarrow> NewsItem list \<Rightarrow> (string \<times> NewsItem) list \<Rightarrow> (string \<times> NewsItem) list" where
  "dedupLoop D [] m = m"
| "dedupLoop D (it # rest) m =
     (let key = dedupKey it in
      case map_of m key of
        None \<Rightarrow> dedupLoop D rest (mapSet key it m)
      | Some prev \<Rightarrow>
          if laterThan (timeOf D (pubDate it)) (timeOf D (pubDate prev))
          then dedupLoop D rest (mapSet key it m)
          else dedupLoop D rest m)"

text \<open>\<open>Array.from(map.values())\<close> after the loop.\<close>

definition dedup :: "dateParser \<Rightarrow> NewsItem list \<Rightarrow> NewsItem list" where
  "dedup D all = map snd (dedupLoop D all [])"

text \<open>The comparator \<open>new Date(b.pubDate || 0) - new Date(a.pubDate || 0)\<close>.\<close>

definition byDateDesc :: "dateParser \<Rightarrow> NewsItem \<Rightarrow> NewsItem \<Rightarrow> int option" where
  "byDateDesc D a b =
     (case timeOf D (pubDate b) of None \<Rightarrow> None
      | Some tb \<Rightarrow> (case timeOf D (pubDate a) of None \<Rightarrow> None | Some ta \<Rightarrow> Some (tb - ta)))"

text \<open>The \<open>items\<close> array of \<open>news.json\<close>, from the accepted items.\<close>

definition rank :: "dateParser \<Rightarrow> NewsItem list \<Rightarrow> NewsItem list" where
  "rank D all = take 200 (sortJS (byDateDesc D) (dedup D all))"

text \<open>
  \<open>main\<close> of the fetch script over a list of sources: the items it hands to
  \<open>writeFile\<close> (the time stamp \<open>updatedAt\<close> is the wall clock and is left out), the
  console lines, and the network state.
\<close>

definition fetchNewsOn ::
  "'w parser \<Rightarrow> dateParser \<Rightarrow> Source list \<Rightarrow> 'w \<Rightarrow> NewsItem list \<times> logline list \<times> 'w" where
  "fetchNewsOn P D srcs w =
     (case fetchLoop P srcs [] [] w of
        (all, log, w') \<Rightarrow>
          (let items = rank D all in (items, log @ [WroteItems (length items)], w')))"

definition fetchNews_main ::
  "'w parser \<Rightarrow> dateParser \<Rightarrow> 'w \<Rightarrow> NewsItem list \<times> logline list \<times> 'w" where
  "fetchNews_main P D w = fetchNewsOn P D SOURCES w"

section \<open>The analysis script\<close>

definition DOMAIN_TO_PLACE :: "(string \<times> string) list" where
  "DOMAIN_TO_PLACE =
    [
     (''theboltonnews.co.uk'', ''Bolton''), (''wigantoday.net'', ''Wigan''),
     (''manchestereveningnews.co.uk'', ''Manchester''), (''liverpoolecho.co.uk'', ''Liverpool''),
     (''yorkshirepost.co.uk'', ''Yorkshire''), (''edinburghnews.scotsman.com'', ''Edinburgh''),
     (''glasgowtimes.co.uk'', ''Glasgow''), (''birminghammail.co.uk'', ''Birmingham''),
     (''bristolpost.co.uk'', ''Bristol''), (''leeds-live.co.uk'', ''Leeds''),
     (''lancs.live'', ''Lancashire''), (''nottinghampost.com'', ''Nottingham''),
     (''leicestermercury.co.uk'', ''Leicester''), (''cambridge-news.co.uk'', ''Cambridge''),
     (''oxfordmail.co.uk'', ''Oxford''), (''kentonline.co.uk'', ''Kent''),
     (''somersetlive.co.uk'', ''Somerset''), (''devonlive.com'', ''Devon''),
     (''cornwalllive.com'', ''Cornwall''), (''northamptonchron.co.uk'', ''Northampton''),
     (''edinburghlive.co.uk'', ''Edinburgh''), (''birminghammail.co.uk'', ''Birmingham''),
     (''eveningnews24.co.uk'', ''Norwich''), (''derbytelegraph.co.uk'', ''Derby''),
     (''stokesentinel.co.uk'', ''Stoke-on-Trent''), (''coventrytelegraph.net'', ''Coventry''),
     (''belfasttelegraph.co.uk'', ''Belfast''), (''walesonline.co.uk'', ''Wales''),
     (''pressandjournal.co.uk'', ''Aberdeen'')
    ]"

definition SOURCE_TO_PLACE :: "(string \<times> string) list" where
  "SOURCE_TO_PLACE =
    [
     (''The Bolton News'', ''Bolton''), (''Wigan Today'', ''Wigan''),
     (''Manchester Evening News'', ''Manchester''), (''Liverpool Echo'', ''Liverpool''),
     (''Yorkshire Post'', ''Yorkshire''), (''Edinburgh Evening News'', ''Edinburgh''),
     (''Glasgow Times'', ''Glasgow''), (''Birmingham Mail'', ''Birmingham''),
     (''Bristol Post'', ''Bristol''), (''Leeds Live'', ''Leeds''),
     (''Lancs Live'', ''Lancashire''), (''Nottingham Post'', ''Nottingham''),
     (''Leicester Mercury'', ''Leicester''), (''Cambridge News'', ''Cambridge''),
     (''Oxford Mail'', ''Oxford''), (''Somerset Live'', ''Somerset''),
     (''Devon Live'', ''Devon''), (''Cornwall Live'', ''Cornwall''),
     (''Northampton Chronicle'', ''Northampton''), (''Edinburgh Live'', ''Edinburgh''),
     (''Coventry Telegraph'', ''Coventry''), (''WalesOnline'', ''Wales''),
     (''Press and Journal'', ''Aberdeen'')
    ]"

definition PLACES :: "string list" where
  "PLACES =
    [
     ''Bolton'', ''Wigan'', ''Manchester'', ''Salford'', ''Bury'', ''Rochdale'', ''Oldham'', ''Tameside'',
     ''Stockport'', ''Trafford'', ''Liverpool'', ''Sefton'', ''Wirral'', ''Knowsley'', ''St Helens'', ''Halton'',
     ''Leeds'', ''Bradford'', ''Kirklees'', ''Calderdale'', ''Wakefield'', ''Birmingham'', ''Solihull'', ''Sandwell'',
     ''Walsall'', ''Dudley'', ''Wolverhampton'', ''Bristol'', ''Bath'', ''Somerset'', ''Gloucestershire'', ''Sheffield'',
     ''Rotherham'', ''Barnsley'', ''Doncaster'', ''Nottingham'', ''Leicester'', ''Cambridge'', ''Oxford'', ''Coventry'',
     ''Derby'', ''Stoke-on-Trent'', ''Northampton'', ''Newcastle'', ''Gateshead'', ''Sunderland'', ''North Tyneside'', ''South Tyneside'',
     ''Lancashire'', ''Yorkshire'', ''Norwich'', ''London'', ''Westminster'', ''Camden'', ''Islington'', ''Hackney'',
     ''Tower Hamlets'', ''Newham'', ''Barking'', ''Dagenham'', ''Croydon'', ''Lambeth'', ''Southwark'', ''Lewisham'',
     ''Greenwich'', ''Haringey'', ''Enfield'', ''Ealing'', ''Hounslow'', ''Edinburgh'', ''Glasgow'', ''Aberdeen'',
     ''Dundee'', ''Cardiff'', ''Swansea'', ''Newport'', ''Wrexham'', ''Flintshire'', ''Wales'', ''Belfast'',
     ''Derry'', ''Lisburn'', ''Newry'', ''Northern Ireland''
    ]"

definition STOP :: "string list" where
  "STOP =
    [
     ''the'', ''a'', ''an'', ''and'', ''or'', ''of'', ''to'', ''for'', ''in'', ''on'', ''at'', ''by'',
     ''from'', ''with'', ''about'', ''after'', ''over'', ''into'', ''uk'', ''britain'', ''british'', ''england'', ''scotland'', ''wales'',
     ''northern'', ''ireland'', ''today'', ''new'', ''plan'', ''plans'', ''says'', ''amid'', ''as'', ''vs'', ''pm'', ''mp'',
     ''mps'', ''council'', ''councils''
    ]"

subsection \<open>Tokens and phrases\<close>

text \<open>
  \<open>s.replace(/https?:\/\/\S+/g, " ")\<close>: \<open>urlStart t\<close> is the length of the scheme when a
  match starts at the head of \<open>t\<close>; the match then runs to the next white space.
\<close>

definition urlStart :: "string \<Rightarrow> nat option" where
  "urlStart t =
     (if prefix ''https://'' t \<and> (case drop 8 t of [] \<Rightarrow> False | d # _ \<Rightarrow> \<not> isSpace d) then Some 8
      else if prefix ''http://'' t \<and> (case drop 7 t of [] \<Rightarrow> False | d # _ \<Rightarrow> \<not> isSpace d) then Some 7
      else None)"

function stripUrls :: "string \<Rightarrow> string" where
  "stripUrls [] = []"
| "stripUrls (c # cs) =
     (case urlStart (c # cs) of
        Some n \<Rightarrow> CHR '' '' # stripUrls (dropWhile (\<lambda>d. \<not> isSpace d) (drop n (c # cs)))
      | None \<Rightarrow> c # stripUrls cs)"
  by pat_completeness auto
termination
proof (relation "measure length")
  show "wf (measure length)" by simp
next
  fix c :: char and cs :: string and n :: nat
  assume "urlStart (c # cs) = Some n"
  then have "0 < n" by (auto simp: urlStart_def split: if_splits)
  then have "length (drop n (c # cs)) < length (c # cs)" by simp
  moreover have "length (dropWhile (\<lambda>d. \<not> isSpace d) (drop n (c # cs))) \<le> length (drop n (c # cs))"
    by (rule length_dropWhile_le)
  ultimately show "(dropWhile (\<lambda>d. \<not> isSpace d) (drop n (c # cs)), c # cs) \<in> measure length"
    by simp
next
  fix c :: char and cs :: string
  show "(cs, c # cs) \<in> measure length" by simp
qed

text \<open>\<open>s.replace(/[^a-z0-9\s\-]/g, " ")\<close>\<close>

definition keepChar :: "char \<Rightarrow> bool" where
  "keepChar c = (inRange CHR ''a'' CHR ''z'' c \<or> inRange CHR ''0'' CHR ''9'' c \<or> isSpace c \<or> c = CHR ''-'')"

definition stripOther :: "string \<Rightarrow> string" where
  "stripOther s = map (\<lambda>c. if keepChar c then c else CHR '' '') s"

text \<open>
  \<open>s.split(/\s+/).filter(Boolean)\<close>: the maximal runs of characters that are not white
  space; \<open>cur\<close> is the run being read.
\<close>

fun splitWs :: "string \<Rightarrow> string \<Rightarrow> string list" where
  "splitWs cur [] = (if cur = [] then [] else [cur])"
| "splitWs cur (c # cs) =
     (if isSpace c then (if cur = [] then splitWs [] cs else cur # splitWs [] cs)
      else splitWs (cur @ [c]) cs)"

definition tokens :: "string \<Rightarrow> string list" where
  "tokens s = splitWs [] (stripOther (stripUrls (toLowerCase s)))"

text \<open>\<open>w.length>2 && !STOP.has(w) && !/^\d+$/.test(w)\<close>\<close>

definition isContent :: "string \<Rightarrow> bool" where
  "isContent w = (2 < length w \<and> w \<notin> set STOP \<and> \<not> (w \<noteq> [] \<and> list_all (inRange CHR ''0'' CHR ''9'') w))"

text \<open>\<open>m.set(k, (m.get(k)||0) + v)\<close> on a table of counts.\<close>

definition bump :: "'k \<Rightarrow> nat \<Rightarrow> ('k \<times> nat) list \<Rightarrow> ('k \<times> nat) list" where
  "bump k v m = mapSet k ((case map_of m k of None \<Rightarrow> 0 | Some c \<Rightarrow> c) + v) m"

text \<open>The loop \<open>for (const w of t) uni.set(w, (uni.get(w)||0)+1)\<close>.\<close>

fun uniLoop :: "string list \<Rightarrow> (string \<times> nat) list \<Rightarrow> (string \<times> nat) list" where
  "uniLoop [] m = m"
| "uniLoop (w # ws) m = uniLoop ws (bump w 1 m)"

text \<open>
  The loop \<open>for (let i=0; i<t.length-1; i++)\<close> over the pairs \<open>`${t[i]} ${t[i+1]}`\<close>
  (the bound is written \<open>i + 1 < length t\<close>: subtraction on \<open>nat\<close> stops at zero).
\<close>

function biLoop :: "string list \<Rightarrow> nat \<Rightarrow> (string \<times> nat) list \<Rightarrow> (string \<times> nat) list" where
  "biLoop t i m =
     (if i + 1 < length t then biLoop t (Suc i) (bump (t ! i @ '' '' @ t ! (i + 1)) 1 m) else m)"
  by pat_completeness auto
termination
  by (relation "measure (\<lambda>(t, i, m). length t - i)") auto

declare biLoop.simps [simp del]

definition phrases :: "jsval \<Rightarrow> jsval \<Rightarrow> (string \<times> nat) list \<times> (string \<times> nat) list" where
  "phrases ttl smry =
     (let t = filter isContent (tokens (template ttl @ '' '' @ template smry))
      in (uniLoop t [], biLoop t 0 []))"

subsection \<open>Place inference\<close>

text \<open>\<open>PLACES.filter(p => new RegExp(`\\b${p}\\b`, "i").test(s))\<close>\<close>

definition placeFromText :: "string \<Rightarrow> string list" where
  "placeFromText s = filter (\<lambda>p. test (wordRx p) s) PLACES"

text \<open>
  A value found under a key of one of the two lookup objects. The objects are plain
  object literals, so a key that is not their own but names a member of
  \<open>Object.prototype\<close> finds that member (\<open>Inherited\<close>), which is truthy. Of two own
  entries with the same key, the later one holds.
\<close>

datatype place = Place string | Inherited string

definition objectPrototypeKeys :: "string list" where
  "objectPrototypeKeys =
    [''constructor'', ''__proto__'', ''hasOwnProperty'', ''isPrototypeOf'',
     ''propertyIsEnumerable'', ''toLocaleString'', ''toString'', ''valueOf'',
     ''__defineGetter__'', ''__defineSetter__'', ''__lookupGetter__'', ''__lookupSetter__'']"

definition lookupObj :: "(string \<times> string) list \<Rightarrow> string \<Rightarrow> place option" where
  "lookupObj tbl k =
     (case map_of (rev tbl) k of
        Some v \<Rightarrow> Some (Place v)
      | None \<Rightarrow> if k \<in> set objectPrototypeKeys then Some (Inherited k) else None)"

definition truthyPlace :: "place option \<Rightarrow> bool" where
  "truthyPlace v = (case v of None \<Rightarrow> False | Some (Place s) \<Rightarrow> s \<noteq> [] | Some (Inherited k) \<Rightarrow> True)"

text \<open>
  \<open>new URL(url)\<close> belongs to the platform: \<open>U url\<close> is the \<open>hostname\<close> of the parsed
  URL, or the \<open>TypeError\<close> the constructor throws for a string it cannot parse.
\<close>

type_synonym urlParser = "string \<Rightarrow> jserror + string"

text \<open>\<open>h.replace(/^www\./, "")\<close>\<close>

definition stripWww :: "string \<Rightarrow> string" where
  "stripWww h = (if prefix ''www.'' h then drop 4 h else h)"

text \<open>The \<open>try\<close> block and its \<open>catch\<close>.\<close>

definition hostnameOf :: "urlParser \<Rightarrow> string \<Rightarrow> jserror + string" where
  "hostnameOf U url =
     (case U url of
        Inr h \<Rightarrow> Inr (toLowerCase (stripWww h))
      | Inl e \<Rightarrow> Inr [])"

text \<open>\<open>a.add(x)\<close> on a \<open>Set\<close>, which iterates in insertion order.\<close>

definition setAdd :: "'a \<Rightarrow> 'a list \<Rightarrow> 'a list" where
  "setAdd x a = (if x \<in> set a then a else a @ [x])"

fun addAll :: "string list \<Rightarrow> place list \<Rightarrow> place list" where
  "addAll [] a = a"
| "addAll (p # ps) a = addAll ps (setAdd (Place p) a)"

text \<open>Step 1 of \<open>inferPlaces\<close>: the places named in the text of headline and summary.\<close>

definition fromText :: "string \<Rightarrow> place list" where
  "fromText text = addAll (placeFromText text) []"

text \<open>Step 2: the place of the host name of the link.\<close>

definition fromHost :: "string \<Rightarrow> place list \<Rightarrow> place list" where
  "fromHost host a =
     (if host \<noteq> [] \<and> truthyPlace (lookupObj DOMAIN_TO_PLACE host)
      then (case lookupObj DOMAIN_TO_PLACE host of Some v \<Rightarrow> setAdd v a | None \<Rightarrow> a)
      else a)"

text \<open>
  Steps 3 and 4, on the trimmed source name \<open>src\<close>: the place of the source name, and
  the places named in it.
\<close>

definition fromSourceName :: "string \<Rightarrow> place list \<Rightarrow> place list" where
  "fromSourceName src a =
     (let a3 = (if src \<noteq> [] \<and> truthyPlace (lookupObj SOURCE_TO_PLACE src)
                then (case lookupObj SOURCE_TO_PLACE src of Some v \<Rightarrow> setAdd v a | None \<Rightarrow> a)
                else a)
      in if src \<noteq> [] then addAll (placeFromText src) a3 else a3)"

text \<open>
  The analysis script parses \<open>news.json\<close> and does not validate it: an element of
  \<open>items\<close> is \<open>null\<close> (\<open>None\<close>) or an object, and a property of the object is a
  string, \<open>null\<close>, absent (\<open>Plain\<close>), or some other JSON value: a number, a boolean, an
  array or an object (\<open>Other\<close>). Of such a value \<open>inferPlaces\<close> observes two things,
  which \<open>Other\<close> holds: whether it is truthy, and the outcome of its conversion to a
  string, which is a \<open>TypeError\<close> for an object whose own \<open>toString\<close> and \<open>valueOf\<close>
  cannot be called.
\<close>

datatype jsonval = Plain jsval | Other bool "jserror + string"

record JsonItem =
  jsonTitle :: jsonval
  jsonLink :: jsonval
  jsonSource :: jsonval
  jsonSummary :: jsonval

text \<open>\<open>`${v || ""}`\<close>: a truthy value is converted to a string.\<close>

definition templateOrEmpty :: "jsonval \<Rightarrow> jserror + string" where
  "templateOrEmpty v =
     (case v of
        Plain p \<Rightarrow> Inr (orEmpty p)
      | Other t c \<Rightarrow> if t then c else Inr [])"

text \<open>
  \<open>hostnameOf(v || "")\<close>: the constructor \<open>URL\<close> converts its argument to a string
  inside the \<open>try\<close> block, so a failed conversion is caught as well.
\<close>

definition hostnameOfLink :: "urlParser \<Rightarrow> jsonval \<Rightarrow> jserror + string" where
  "hostnameOfLink U v =
     (case v of
        Plain p \<Rightarrow> hostnameOf U (orEmpty p)
      | Other t c \<Rightarrow>
          if t then (case c of Inl e \<Rightarrow> Inr [] | Inr s \<Rightarrow> hostnameOf U s)
          else hostnameOf U [])"

text \<open>
  \<open>(v || "").trim()\<close>: a truthy value that is not a string has no method \<open>trim\<close>, and
  the call throws a \<open>TypeError\<close>.
\<close>

definition trimOrEmpty :: "jsonval \<Rightarrow> jserror + string" where
  "trimOrEmpty v =
     (case v of
        Plain p \<Rightarrow> Inr (trim (orEmpty p))
      | Other t c \<Rightarrow> if t then Inl (Error ''TypeError: trim is not a function'') else Inr (trim []))"

text \<open>
  \<open>inferPlaces\<close> on an element of \<open>items\<close>, with an error of any of its steps passed on
  to the caller (\<open>Inl\<close>): the function itself catches nothing. Reading a property of
  \<open>null\<close> throws a \<open>TypeError\<close>.
\<close>

definition inferPlacesJson :: "urlParser \<Rightarrow> JsonItem option \<Rightarrow> jserror + place list" where
  "inferPlacesJson U item =
     (case item of
        None \<Rightarrow> Inl (Error ''TypeError: Cannot read properties of null'')
      | Some r \<Rightarrow>
         (case templateOrEmpty (jsonTitle r) of
            Inl e \<Rightarrow> Inl e
          | Inr t \<Rightarrow>
             (case templateOrEmpty (jsonSummary r) of
                Inl e \<Rightarrow> Inl e
              | Inr s \<Rightarrow>
                 (case hostnameOfLink U (jsonLink r) of
                    Inl e \<Rightarrow> Inl e
                  | Inr host \<Rightarrow>
                     (case trimOrEmpty (jsonSource r) of
                        Inl e \<Rightarrow> Inl e
                      | Inr src \<Rightarrow>
                          Inr (fromSourceName src (fromHost host (fromText (t @ '' '' @ s)))))))))"

text \<open>
  An item of the shape the fetch script writes, as such an element, and \<open>inferPlaces\<close>
  on it.
\<close>

definition jsonOf :: "NewsItem \<Rightarrow> JsonItem" where
  "jsonOf it =
     \<lparr>jsonTitle = Plain (title it), jsonLink = Plain (link it),
      jsonSource = Plain (source it), jsonSummary = Plain (summary it)\<rparr>"

definition inferPlaces :: "urlParser \<Rightarrow> NewsItem \<Rightarrow> jserror + place list" where
  "inferPlaces U it = inferPlacesJson U (Some (jsonOf it))"

text \<open>The text \<open>`${it.title || ""} ${it.summary || ""}`\<close> of such an item, and the steps on it.\<close>

definition headline :: "NewsItem \<Rightarrow> string" where
  "headline it = orEmpty (title it) @ '' '' @ orEmpty (summary it)"

definition fromHeadline :: "NewsItem \<Rightarrow> place list" where
  "fromHeadline it = fromText (headline it)"

definition fromSource :: "NewsItem \<Rightarrow> place list \<Rightarrow> place list" where
  "fromSource it a = fromSourceName (trim (orEmpty (source it))) a"

subsection \<open>Buckets and areas\<close>

text \<open>An example \<open>{title, link, source, pubDate}\<close> is an item without a summary.\<close>

definition exampleOf :: "NewsItem \<Rightarrow> NewsItem" where
  "exampleOf it =
     \<lparr>title = title it, link = link it, pubDate = pubDate it, source = source it, summary = Undefined\<rparr>"

record Bucket =
  items :: "(jsval \<times> NewsItem) list"
  uni :: "(string \<times> nat) list"
  bi :: "(string \<times> nat) list"

text \<open>\<open>for (const [k,v] of src) dst.set(k, (dst.get(k)||0)+v)\<close>\<close>

fun mergeCounts :: "(string \<times> nat) list \<Rightarrow> (string \<times> nat) list \<Rightarrow> (string \<times> nat) list" where
  "mergeCounts [] dst = dst"
| "mergeCounts (e # src) dst = mergeCounts src (bump (fst e) (snd e) dst)"

text \<open>
  The body of the loop over the places of one item. The bucket is an object held by the
  map and changed in place, so the map keeps its order of keys.
\<close>

definition addToBucket ::
  "NewsItem \<Rightarrow> (string \<times> nat) list \<Rightarrow> (string \<times> nat) list
     \<Rightarrow> (place \<times> Bucket) list \<Rightarrow> place \<Rightarrow> (place \<times> Bucket) list" where
  "addToBucket it u b buckets pl =
     (let bk = (case map_of buckets pl of
                  None \<Rightarrow> \<lparr>items = [], uni = [], bi = []\<rparr>
                | Some bk \<Rightarrow> bk);
          key = orElse (link it) (title it);
          its = (if map_of (items bk) key = None then mapSet key (exampleOf it) (items bk)
                 else items bk)
      in mapSet pl \<lparr>items = its, uni = mergeCounts u (uni bk), bi = mergeCounts b (bi bk)\<rparr> buckets)"

fun placesLoop ::
  "NewsItem \<Rightarrow> (string \<times> nat) list \<Rightarrow> (string \<times> nat) list
     \<Rightarrow> place list \<Rightarrow> (place \<times> Bucket) list \<Rightarrow> (place \<times> Bucket) list" where
  "placesLoop it u b [] buckets = buckets"
| "placesLoop it u b (pl # pls) buckets = placesLoop it u b pls (addToBucket it u b buckets pl)"

text \<open>The loop over the items; an error of \<open>inferPlaces\<close> would end \<open>main\<close>.\<close>

fun bucketLoop ::
  "urlParser \<Rightarrow> NewsItem list \<Rightarrow> (place \<times> Bucket) list \<Rightarrow> jserror + (place \<times> Bucket) list" where
  "bucketLoop U [] buckets = Inr buckets"
| "bucketLoop U (it # rest) buckets =
     (case inferPlaces U it of
        Inl e \<Rightarrow> Inl e
      | Inr places \<Rightarrow>
          if places = [] then bucketLoop U rest buckets
          else (case phrases (title it) (summary it) of
                  (u, b) \<Rightarrow> bucketLoop U rest (placesLoop it u b places buckets)))"

text \<open>\<open>topN(m, n)\<close>: the entries by descending count, the first \<open>n\<close> of them.\<close>

definition topN :: "(string \<times> nat) list \<Rightarrow> nat \<Rightarrow> (string \<times> nat) list" where
  "topN m n = take n (sortJS (\<lambda>a b. Some (int (snd b) - int (snd a))) m)"

text \<open>\<open>i.includes(w)\<close>\<close>

definition includesStr :: "string \<Rightarrow> string \<Rightarrow> bool" where
  "includesStr i w = sublist w i"

text \<open>
  An entry of \<open>areas\<close>. Its property \<open>keywords\<close> is the field \<open>singles\<close> here, after
  the variable that holds it.
\<close>

record Area =
  place :: place
  sampleCount :: nat
  issues :: "string list"
  singles :: "string list"
  examples :: "NewsItem list"

definition areaOf :: "place \<times> Bucket \<Rightarrow> Area" where
  "areaOf e =
     (let b = snd e;
          iss = map fst (topN (bi b) 10);
          sgl = filter (\<lambda>w. \<not> some (\<lambda>i. includesStr i w) iss) (map fst (topN (uni b) 10))
      in \<lparr>place = fst e, sampleCount = length (items b), issues = iss,
          singles = sgl, examples = take 8 (map snd (items b))\<rparr>)"

text \<open>
  \<open>main\<close> of the analysis script on the \<open>items\<close> array read from \<open>news.json\<close>: the
  \<open>areas\<close> array it hands to \<open>writeFile\<close>.
\<close>

definition analyseNews_main :: "urlParser \<Rightarrow> NewsItem list \<Rightarrow> jserror + Area list" where
  "analyseNews_main U its =
     (case bucketLoop U its [] of
        Inl e \<Rightarrow> Inl e
      | Inr buckets \<Rightarrow>
          Inr (sortJS (\<lambda>a b. Some (int (sampleCount b) - int (sampleCount a))) (map areaOf buckets)))"

section \<open>Notions used in the statements\<close>

text \<open>
  The character just before a position: the last character of the text read so far, or
  the character before that text when nothing was read.
\<close>

definition charBefore :: "char option \<Rightarrow> string \<Rightarrow> char option" where
  "charBefore prev xs = (if xs = [] then prev else Some (last xs))"

text \<open>
  A literal occurs in a text, ignoring case; and it occurs as a whole word: with a word
  boundary just before it and just after it.
\<close>

definition occursIn :: "string \<Rightarrow> string \<Rightarrow> bool" where
  "occursIn s t = sublist (map canon s) (map canon t)"

definition wholeWordIn :: "string \<Rightarrow> string \<Rightarrow> bool" where
  "wholeWordIn s t =
     (\<exists>pre mid suf. t = pre @ mid @ suf \<and> map canon mid = map canon s
        \<and> boundary (charBefore None pre) (mid @ suf)
        \<and> boundary (charBefore (charBefore None pre) mid) suf)"

text \<open>
  The time value of the date of an item as the script compares it (\<open>None\<close> is
  \<open>NaN\<close>).
\<close>

abbreviation tv :: "dateParser \<Rightarrow> NewsItem \<Rightarrow> int option" where
  "tv D it \<equiv> timeOf D (pubDate it)"

text \<open>
  The rank of an item in the statements: the time its \<open>pubDate\<close> denotes, and the epoch
  (0) when the item has no \<open>pubDate\<close>, an empty one, or one that is not a date.
\<close>

definition timeValue :: "dateParser \<Rightarrow> NewsItem \<Rightarrow> int" where
  "timeValue D it =
     (case pubDate it of
        Str s \<Rightarrow> (if s = [] then 0 else (case D s of None \<Rightarrow> 0 | Some t \<Rightarrow> t))
      | _ \<Rightarrow> 0)"

text \<open>
  The invariant of the map of the deduplication loop: its keys are distinct and every
  entry sits under the key of its item.
\<close>

definition keyed :: "(string \<times> NewsItem) list \<Rightarrow> bool" where
  "keyed m = (distinct (map fst m) \<and> (\<forall>e \<in> set m. dedupKey (snd e) = fst e))"

subsection \<open>Sample inputs\<close>

text \<open>
  A date parser that knows two ISO time stamps: one second before the epoch, and noon of
  1 May 2024 (19844 days and 12 hours after the epoch).
\<close>

definition sampleDates :: dateParser where
  "sampleDates s =
     (if s = ''1969-12-31T23:59:59.000Z'' then Some (- 1000)
      else if s = ''2024-05-01T12:00:00.000Z'' then Some 1714564800000
      else None)"

definition itemOld :: NewsItem where
  "itemOld = \<lparr>title = Str ''Budget vote'', link = Str ''https://example.org/a'',
              pubDate = Str ''1969-12-31T23:59:59.000Z'', source = Str ''Gazette'', summary = Str []\<rparr>"

definition itemUndated :: NewsItem where
  "itemUndated = \<lparr>title = Str ''Budget vote'', link = Str ''https://example.org/b'',
                  pubDate = Null, source = Str ''Gazette'', summary = Str []\<rparr>"

definition itemNew :: NewsItem where
  "itemNew = \<lparr>title = Str ''Rail strike'', link = Str ''https://example.org/c'',
              pubDate = Str ''2024-05-01T12:00:00.000Z'', source = Str ''Gazette'', summary = Str []\<rparr>"

definition itemOther :: NewsItem where
  "itemOther = \<lparr>title = Str ''Rail plan'', link = Str ''https://example.org/d'',
                pubDate = Null, source = Str ''Gazette'', summary = Str []\<rparr>"

subsection \<open>Requests and their outcomes\<close>

text \<open>
  A candidate fails when its request ends in an error (a network error, a time-out, a
  body that does not parse) or in a feed without entries.
\<close>

definition failed :: "jserror + Feed \<Rightarrow> bool" where
  "failed r = (case r of Inl e \<Rightarrow> True | Inr feed \<Rightarrow> \<not> hasItems feed)"

text \<open>The requests for a list of URLs made one after the other, with their outcomes.\<close>

fun replay :: "'w parser \<Rightarrow> string list \<Rightarrow> 'w \<Rightarrow> (string \<times> (jserror + Feed)) list \<times> 'w" where
  "replay P [] w = ([], w)"
| "replay P (url # rest) w =
     (case P url w of (r, w') \<Rightarrow> (case replay P rest w' of (rs, w'') \<Rightarrow> ((url, r) # rs, w'')))"

text \<open>
  A sample network: the second candidate of Sky Politics answers with a feed of one
  entry, the first candidate of the Lancashire Evening Post with an empty feed, and every
  other URL with an error. Its state counts the requests.
\<close>

definition sampleEntry :: RawFeedEntry where
  "sampleEntry = \<lparr>rawTitle = Str ''Budget vote'', rawLink = Str ''https://news.sky.com/1'',
                  isoDate = Str ''2024-05-01T12:00:00.000Z'', rawPubDate = Undefined,
                  contentSnippet = Str '' MPs  vote '', content = Undefined\<rparr>"

definition sampleFeed :: Feed where
  "sampleFeed = \<lparr>feedTitle = Undefined, feedItems = Some [sampleEntry]\<rparr>"

definition emptyFeed :: Feed where
  "emptyFeed = \<lparr>feedTitle = Str ''Empty'', feedItems = Some []\<rparr>"

definition skySource :: Source where
  "skySource = \<lparr>name = ''Sky Politics'',
                candidates = [''http://feeds.skynews.com/feeds/rss/politics.xml'',
                              ''https://news.sky.com/feeds/rss/politics.xml'']\<rparr>"

definition lepSource :: Source where
  "lepSource = \<lparr>name = ''Lancashire Evening Post'',
                candidates = [''https://www.lep.co.uk/rss'', ''https://www.lep.co.uk/news/rss'']\<rparr>"

definition sampleNet :: "nat parser" where
  "sampleNet url n =
     (if url = ''https://news.sky.com/feeds/rss/politics.xml'' then (Inr sampleFeed, Suc n)
      else if url = ''https://www.lep.co.uk/rss'' then (Inr emptyFeed, Suc n)
      else (Inl (Error ''Status code 404''), Suc n))"

subsection \<open>Notions of the analysis\<close>

text \<open>The adjacent pairs of a token sequence, each pair joined by one space.\<close>

fun adjacentPairs :: "string list \<Rightarrow> string list" where
  "adjacentPairs (x # y # rest) = (x @ '' '' @ y) # adjacentPairs (y # rest)"
| "adjacentPairs _ = []"

text \<open>The filtered token sequence of an item: its tokens that are content words.\<close>

definition contentTokens :: "jsval \<Rightarrow> jsval \<Rightarrow> string list" where
  "contentTokens ttl smry = filter isContent (tokens (template ttl @ '' '' @ template smry))"

text \<open>Counting a list of keys into a table, one by one.\<close>

fun bumpAll :: "string list \<Rightarrow> (string \<times> nat) list \<Rightarrow> (string \<times> nat) list" where
  "bumpAll [] m = m"
| "bumpAll (k # ks) m = bumpAll ks (bump k 1 m)"

text \<open>The key \<open>it.link || it.title\<close> under which a bucket holds an item.\<close>

definition itemKey :: "NewsItem \<Rightarrow> jsval" where
  "itemKey it = orElse (link it) (title it)"

text \<open>The places of an item, and the items of a list that have a given place.\<close>

definition placesOf :: "urlParser \<Rightarrow> NewsItem \<Rightarrow> place list" where
  "placesOf U it = (case inferPlaces U it of Inl e \<Rightarrow> [] | Inr ps \<Rightarrow> ps)"

definition members :: "urlParser \<Rightarrow> place \<Rightarrow> NewsItem list \<Rightarrow> NewsItem list" where
  "members U r its = filter (\<lambda>x. r \<in> set (placesOf U x)) its"

text \<open>
  What the loop does to the \<open>items\<close> map of the bucket of a place: an item is stored
  under its key unless the key is taken.
\<close>

definition addItem :: "NewsItem \<Rightarrow> (jsval \<times> NewsItem) list \<Rightarrow> (jsval \<times> NewsItem) list" where
  "addItem it m =
     (if map_of m (itemKey it) = None then mapSet (itemKey it) (exampleOf it) m else m)"

fun addItems :: "NewsItem list \<Rightarrow> (jsval \<times> NewsItem) list \<Rightarrow> (jsval \<times> NewsItem) list" where
  "addItems [] m = m"
| "addItems (it # rest) m = addItems rest (addItem it m)"

definition itemsOf :: "(place \<times> Bucket) list \<Rightarrow> place \<Rightarrow> (jsval \<times> NewsItem) list" where
  "itemsOf bs q = (case map_of bs q of None \<Rightarrow> [] | Some bk \<Rightarrow> items bk)"

subsection \<open>Sample inputs of the analysis\<close>

text \<open>A URL parser that knows one URL and rejects every other string.\<close>

definition sampleUrl :: urlParser where
  "sampleUrl s = (if s = ''https://www.wigantoday.net/a'' then Inr ''www.wigantoday.net''
                  else Inl (Error ''Invalid URL''))"

definition itemTrams :: NewsItem where
  "itemTrams = \<lparr>title = Str ''Trams'', link = Str ''https://www.wigantoday.net/a'',
                pubDate = Null, source = Str [], summary = Str []\<rparr>"

definition itemBus :: NewsItem where
  "itemBus = \<lparr>title = Str ''Wigan bus'', link = Undefined,
              pubDate = Null, source = Str [], summary = Str []\<rparr>"

definition bwItem :: "string \<Rightarrow> NewsItem" where
  "bwItem l = \<lparr>title = Str ''Bolton Wigan'', link = Str l, pubDate = Null,
               source = Str [], summary = Str []\<rparr>"

definition nineItems :: "NewsItem list" where
  "nineItems = map bwItem [''a'', ''b'', ''c'', ''d'', ''e'', ''f'', ''g'', ''h'', ''i'']"

section \<open>Properties of the regular expressions\<close>

lemma some_iff: "some p xs \<longleftrightarrow> (\<exists>x \<in> set xs. p x)"
  by (induction xs) auto

text \<open>
  A pattern of literal characters matches exactly where the text holds the literal up to
  case, so \<open>test\<close> on it is the search for a substring.
\<close>

lemma matchHere_plain:
  "matchHere (map Ch s) prev t \<longleftrightarrow> prefix (map canon s) (map canon t)"
proof (induction s arbitrary: prev t)
  case Nil
  then show ?case by simp
next
  case (Cons c s)
  then show ?case by (cases t) auto
qed

lemma search_plain:
  "search (map Ch s) prev t \<longleftrightarrow> sublist (map canon s) (map canon t)"
proof (induction t arbitrary: prev)
  case Nil
  then show ?case by (simp add: matchHere_plain)
next
  case (Cons d t)
  then show ?case by (simp add: matchHere_plain sublist_Cons_right del: matchHere.simps)
qed

lemma test_plainRx: "test (plainRx s) t \<longleftrightarrow> sublist (map canon s) (map canon t)"
  by (simp add: test_def plainRx_def search_plain)

lemma charBefore_Cons: "charBefore prev (d # xs) = charBefore (Some d) xs"
  by (simp add: charBefore_def)

lemma matchHere_word_body:
  "matchHere (map Ch s @ [B]) prev t \<longleftrightarrow>
     (\<exists>mid suf. t = mid @ suf \<and> map canon mid = map canon s \<and> boundary (charBefore prev mid) suf)"
proof (induction s arbitrary: prev t)
  case Nil
  then show ?case by (simp add: charBefore_def)
next
  case (Cons c s)
  show ?case
  proof (cases t)
    case Nil
    then show ?thesis by simp
  next
    case (Cons d t')
    have "matchHere (map Ch (c # s) @ [B]) prev t
            \<longleftrightarrow> canon c = canon d \<and> matchHere (map Ch s @ [B]) (Some d) t'"
      using Cons by simp
    also have "\<dots> \<longleftrightarrow> canon c = canon d \<and>
        (\<exists>mid suf. t' = mid @ suf \<and> map canon mid = map canon s \<and> boundary (charBefore (Some d) mid) suf)"
      by (simp only: Cons.IH)
    also have "\<dots> \<longleftrightarrow>
        (\<exists>mid suf. t = mid @ suf \<and> map canon mid = map canon (c # s) \<and> boundary (charBefore prev mid) suf)"
      (is "?L \<longleftrightarrow> ?R")
    proof
      assume ?L
      then obtain mid suf where
        h: "canon c = canon d" "t' = mid @ suf" "map canon mid = map canon s"
           "boundary (charBefore (Some d) mid) suf" by blast
      have "t = (d # mid) @ suf \<and> map canon (d # mid) = map canon (c # s)
              \<and> boundary (charBefore prev (d # mid)) suf"
        using h Cons by (simp add: charBefore_Cons)
      then show ?R by blast
    next
      assume ?R
      then obtain mid suf where
        h: "t = mid @ suf" "map canon mid = map canon (c # s)" "boundary (charBefore prev mid) suf"
        by blast
      from h(2) obtain e mid' where m: "mid = e # mid'" by (cases mid) auto
      with h Cons have "e = d" "t' = mid' @ suf" "canon c = canon d" "map canon mid' = map canon s"
        by auto
      moreover have "boundary (charBefore (Some d) mid') suf"
        using h(3) m \<open>e = d\<close> by (simp add: charBefore_Cons)
      ultimately show ?L by blast
    qed
    finally show ?thesis .
  qed
qed

lemma search_iff:
  "search r prev t \<longleftrightarrow> (\<exists>pre rest. t = pre @ rest \<and> matchHere r (charBefore prev pre) rest)"
proof (induction t arbitrary: prev)
  case Nil
  then show ?case by (simp add: charBefore_def)
next
  case (Cons d t)
  have "search r prev (d # t) \<longleftrightarrow> matchHere r prev (d # t) \<or> search r (Some d) t" by simp
  also have "\<dots> \<longleftrightarrow> matchHere r prev (d # t) \<or>
      (\<exists>pre rest. t = pre @ rest \<and> matchHere r (charBefore (Some d) pre) rest)"
    by (simp only: Cons.IH)
  also have "\<dots> \<longleftrightarrow> (\<exists>pre rest. d # t = pre @ rest \<and> matchHere r (charBefore prev pre) rest)"
    (is "?L \<longleftrightarrow> ?R")
  proof
    assume ?L
    then show ?R
    proof
      assume "matchHere r prev (d # t)"
      then have "d # t = [] @ (d # t) \<and> matchHere r (charBefore prev []) (d # t)"
        by (simp add: charBefore_def)
      then show ?R by blast
    next
      assume "\<exists>pre rest. t = pre @ rest \<and> matchHere r (charBefore (Some d) pre) rest"
      then obtain pre rest where "t = pre @ rest" "matchHere r (charBefore (Some d) pre) rest"
        by blast
      then have "d # t = (d # pre) @ rest \<and> matchHere r (charBefore prev (d # pre)) rest"
        by (simp add: charBefore_Cons)
      then show ?R by blast
    qed
  next
    assume ?R
    then obtain pre rest where h: "d # t = pre @ rest" "matchHere r (charBefore prev pre) rest"
      by blast
    show ?L
    proof (cases pre)
      case Nil
      with h show ?thesis by (simp add: charBefore_def)
    next
      case (Cons e pre')
      with h have "t = pre' @ rest" "matchHere r (charBefore (Some d) pre') rest"
        by (auto simp: charBefore_Cons)
      then show ?thesis by blast
    qed
  qed
  finally show ?case .
qed

text \<open>
  A pattern between two \<open>\b\<close> matches exactly where the text holds the literal up to
  case with a word boundary on each side.
\<close>

lemma test_wordRx:
  "test (wordRx s) t \<longleftrightarrow>
     (\<exists>pre mid suf. t = pre @ mid @ suf \<and> map canon mid = map canon s
        \<and> boundary (charBefore None pre) (mid @ suf)
        \<and> boundary (charBefore (charBefore None pre) mid) suf)"
proof -
  have w: "matchHere (wordRx s) prev u \<longleftrightarrow>
      boundary prev u \<and> (\<exists>mid suf. u = mid @ suf \<and> map canon mid = map canon s
                                 \<and> boundary (charBefore prev mid) suf)" for prev u
    using matchHere_word_body [of s prev u] by (simp add: wordRx_def)
  show ?thesis
    unfolding test_def search_iff w by blast
qed

section \<open>Properties of the classifier\<close>

text \<open>
  C1, as the claim states it, fails: the text the classifier searches is not the
  concatenation of title and summary. The pattern "goal" of \<open>EXCLUDE\<close> occurs in the
  concatenation of the title "budget goa" and the summary "l", and \<open>isPolitical\<close> returns
  true for them.
\<close>

theorem isPolitical_concatenation_counterexample:
  "''goal'' \<in> set EXCLUDE_words
   \<and> occursIn ''goal'' (''budget goa'' @ ''l'')
   \<and> isPolitical (Str ''budget goa'') (Str ''l'')"
  by code_simp

text \<open>
  C1, amended. For every title and summary: if a pattern of \<open>EXCLUDE\<close> occurs anywhere in
  the text made of the title, one space and the summary, \<open>isPolitical\<close> returns false,
  whether or not a pattern of \<open>INCLUDE\<close> matches too; and if no pattern of \<open>EXCLUDE\<close>
  occurs in that text, it returns true exactly when at least one pattern of \<open>INCLUDE\<close>
  occurs in it as a whole word. Case is ignored, and a title or summary that is absent or
  \<open>null\<close> counts as the empty string.
\<close>

theorem isPolitical_exclude_wins:
  "((\<exists>s \<in> set EXCLUDE_words. occursIn s (t @ '' '' @ u)) \<longrightarrow> \<not> isPolitical (Str t) (Str u))
   \<and> ((\<forall>s \<in> set EXCLUDE_words. \<not> occursIn s (t @ '' '' @ u)) \<longrightarrow>
         isPolitical (Str t) (Str u) = (\<exists>s \<in> set INCLUDE_words. wholeWordIn s (t @ '' '' @ u)))
   \<and> isPolitical ttl smry
        = isPolitical (Str (case ttl of Str x \<Rightarrow> x | _ \<Rightarrow> [])) (Str (case smry of Str x \<Rightarrow> x | _ \<Rightarrow> []))"
proof -
  have ex: "some (\<lambda>rx. test rx x) EXCLUDE \<longleftrightarrow> (\<exists>s \<in> set EXCLUDE_words. occursIn s x)" for x
    by (simp add: some_iff EXCLUDE_def test_plainRx occursIn_def)
  have inc: "some (\<lambda>rx. test rx x) INCLUDE \<longleftrightarrow> (\<exists>s \<in> set INCLUDE_words. wholeWordIn s x)" for x
    by (simp add: some_iff INCLUDE_def test_wordRx wholeWordIn_def)
  have h: "haystack (Str t) (Str u) = t @ '' '' @ u" by (simp add: haystack_def orEmpty_def)
  have 1: "(\<exists>s \<in> set EXCLUDE_words. occursIn s (t @ '' '' @ u)) \<longrightarrow> \<not> isPolitical (Str t) (Str u)"
    by (simp add: isPolitical_def Let_def h ex)
  have 2: "(\<forall>s \<in> set EXCLUDE_words. \<not> occursIn s (t @ '' '' @ u)) \<longrightarrow>
         isPolitical (Str t) (Str u) = (\<exists>s \<in> set INCLUDE_words. wholeWordIn s (t @ '' '' @ u))"
    by (simp add: isPolitical_def Let_def h ex inc)
  have 3: "isPolitical ttl smry
        = isPolitical (Str (case ttl of Str x \<Rightarrow> x | _ \<Rightarrow> [])) (Str (case smry of Str x \<Rightarrow> x | _ \<Rightarrow> []))"
    by (simp add: isPolitical_def haystack_def orEmpty_def)
  from 1 2 3 show ?thesis by blast
qed

theorem isPolitical_exclude_wins_witness:
  "''love island'' \<in> set EXCLUDE_words
   \<and> occursIn ''love island'' (''Tax on love'' @ '' '' @ ''Island life'')
   \<and> ''tax'' \<in> set INCLUDE_words
   \<and> wholeWordIn ''tax'' (''Tax on love'' @ '' '' @ ''Island life'')
   \<and> \<not> isPolitical (Str ''Tax on love'') (Str ''Island life'')
   \<and> \<not> (\<exists>s \<in> set EXCLUDE_words. occursIn s (''Mayor sets'' @ '' '' @ ''a budget''))
   \<and> ''budget'' \<in> set INCLUDE_words
   \<and> wholeWordIn ''budget'' (''Mayor sets'' @ '' '' @ ''a budget'')
   \<and> isPolitical (Str ''Mayor sets'') (Str ''a budget'')
   \<and> isPolitical (Str ''Mayor sets'') Undefined = isPolitical (Str ''Mayor sets'') (Str [])"
proof -
  have e1: "''love island'' \<in> set EXCLUDE_words
            \<and> occursIn ''love island'' (''Tax on love'' @ '' '' @ ''Island life'')"
    by code_simp
  have i1: "''tax'' \<in> set INCLUDE_words" by code_simp
  have "test (wordRx ''tax'') (''Tax on love'' @ '' '' @ ''Island life'')" by code_simp
  then have w1: "wholeWordIn ''tax'' (''Tax on love'' @ '' '' @ ''Island life'')"
    by (simp only: test_wordRx wholeWordIn_def)
  have e2: "\<not> (\<exists>s \<in> set EXCLUDE_words. occursIn s (''Mayor sets'' @ '' '' @ ''a budget''))"
    by code_simp
  have i2: "''budget'' \<in> set INCLUDE_words" by code_simp
  have "test (wordRx ''budget'') (''Mayor sets'' @ '' '' @ ''a budget'')" by code_simp
  then have w2: "wholeWordIn ''budget'' (''Mayor sets'' @ '' '' @ ''a budget'')"
    by (simp only: test_wordRx wholeWordIn_def)
  note t1 = isPolitical_exclude_wins [of "''Tax on love''" "''Island life''" "Str ''Mayor sets''" Undefined]
  note t2 = isPolitical_exclude_wins [of "''Mayor sets''" "''a budget''" "Str ''Mayor sets''" Undefined]
  from t1 e1 have r1: "\<not> isPolitical (Str ''Tax on love'') (Str ''Island life'')" by blast
  from t2 e2 i2 w2 have r2: "isPolitical (Str ''Mayor sets'') (Str ''a budget'')" by blast
  from t1 have r3: "isPolitical (Str ''Mayor sets'') Undefined = isPolitical (Str ''Mayor sets'') (Str [])"
    by simp
  from e1 i1 w1 r1 e2 i2 w2 r2 r3 show ?thesis by blast
qed

text \<open>
  C2, as the specification states it, fails: for the title "Council announces new
  transfer window for housing" with an empty summary \<open>isPolitical\<close> returns false.
\<close>

theorem isPolitical_transfer_window_counterexample:
  "\<not> isPolitical (Str ''Council announces new transfer window for housing'') (Str [])"
  by code_simp

text \<open>
  C2, amended. For that title, with an empty or an absent summary, \<open>isPolitical\<close>
  returns false: the include patterns "council" and "housing" match as whole words, but
  "transfer" is one of the \<open>EXCLUDE\<close> patterns and matches too, and exclusion wins.
\<close>

theorem isPolitical_transfer_window:
  "test (wordRx ''council'') (haystack (Str ''Council announces new transfer window for housing'') (Str []))
   \<and> test (wordRx ''housing'') (haystack (Str ''Council announces new transfer window for housing'') (Str []))
   \<and> wordRx ''council'' \<in> set INCLUDE \<and> wordRx ''housing'' \<in> set INCLUDE
   \<and> plainRx ''transfer'' \<in> set EXCLUDE
   \<and> test (plainRx ''transfer'') (haystack (Str ''Council announces new transfer window for housing'') (Str []))
   \<and> isPolitical (Str ''Council announces new transfer window for housing'') (Str []) = False
   \<and> isPolitical (Str ''Council announces new transfer window for housing'') Undefined = False"
  by code_simp

section \<open>Properties of deduplication\<close>

lemma map_of_mapSet: "map_of (mapSet k v m) k' = (if k' = k then Some v else map_of m k')"
  by (induction m) auto

lemma keys_mapSet: "fst ` set (mapSet k v m) = insert k (fst ` set m)"
  by (induction m) auto

lemma distinct_mapSet: "distinct (map fst m) \<Longrightarrow> distinct (map fst (mapSet k v m))"
proof (induction m)
  case Nil
  then show ?case by simp
next
  case (Cons e m)
  then show ?case using keys_mapSet [of k v m] by (auto simp: image_iff)
qed

lemma values_mapSet: "set (mapSet k v m) \<subseteq> insert (k, v) (set m)"
  by (induction m) auto

lemma keyed_mapSet: "keyed m \<Longrightarrow> dedupKey it = k \<Longrightarrow> keyed (mapSet k it m)"
  unfolding keyed_def using values_mapSet [of k it m] by (auto simp: distinct_mapSet)

lemma keyed_dedupLoop: "keyed m \<Longrightarrow> keyed (dedupLoop D all m)"
proof (induction all arbitrary: m)
  case Nil
  then show ?case by simp
next
  case (Cons it rest)
  then show ?case by (auto simp: Let_def keyed_mapSet split: option.splits)
qed

lemma laterThan_irrefl: "\<not> laterThan a a"
  by (simp add: laterThan_def split: option.splits)

lemma laterThan_step: "laterThan s s' \<Longrightarrow> \<not> laterThan x s' \<Longrightarrow> \<not> laterThan x s"
  by (auto simp: laterThan_def split: option.splits)

lemma dedupLoop_present:
  "map_of m k = Some s' \<Longrightarrow>
     \<exists>s. map_of (dedupLoop D all m) k = Some s \<and> (s = s' \<or> laterThan (tv D s) (tv D s'))
          \<and> (s = s' \<or> s \<in> set all)"
proof (induction all arbitrary: m s')
  case Nil
  then show ?case by simp
next
  case (Cons it rest)
  show ?case
  proof (cases "dedupKey it = k")
    case False
    have "map_of (mapSet (dedupKey it) it m) k = Some s'"
      using False Cons.prems by (simp add: map_of_mapSet)
    from Cons.IH [OF this] Cons.IH [OF Cons.prems] show ?thesis
      by (auto simp: Let_def split: option.splits)
  next
    case True
    show ?thesis
    proof (cases "laterThan (tv D it) (tv D s')")
      case later: True
      have "map_of (mapSet k it m) k = Some it" by (simp add: map_of_mapSet)
      from Cons.IH [OF this] obtain s where
        s: "map_of (dedupLoop D rest (mapSet k it m)) k = Some s"
           "s = it \<or> laterThan (tv D s) (tv D it)" "s = it \<or> s \<in> set rest" by blast
      have "laterThan (tv D s) (tv D s')"
        using s(2) later by (auto simp: laterThan_def split: option.splits)
      with s True later Cons.prems show ?thesis by (auto simp: Let_def)
    next
      case False
      with Cons.IH [OF Cons.prems] True Cons.prems show ?thesis by (auto simp: Let_def)
    qed
  qed
qed

lemma dedupLoop_notLater:
  "map_of m k = Some s' \<Longrightarrow> \<not> laterThan x (tv D s') \<Longrightarrow> map_of (dedupLoop D all m) k = Some s
     \<Longrightarrow> \<not> laterThan x (tv D s)"
  using dedupLoop_present [of m k s' D all] laterThan_step by auto

lemma dedupLoop_latest:
  "b \<in> set all \<Longrightarrow> dedupKey b = k \<Longrightarrow>
     \<exists>s. map_of (dedupLoop D all m) k = Some s \<and> \<not> laterThan (tv D b) (tv D s)"
proof (induction all arbitrary: m)
  case Nil
  then show ?case by simp
next
  case (Cons it rest)
  show ?case
  proof (cases "b = it")
    case True
    let ?m' = "(case map_of m k of None \<Rightarrow> mapSet k it m
                | Some prev \<Rightarrow> if laterThan (tv D it) (tv D prev) then mapSet k it m else m)"
    have step: "dedupLoop D (it # rest) m = dedupLoop D rest ?m'"
      using True Cons.prems by (simp add: Let_def split: option.splits)
    have "\<exists>s'. map_of ?m' k = Some s' \<and> \<not> laterThan (tv D it) (tv D s')"
    proof (cases "map_of m k")
      case None
      then show ?thesis by (simp add: map_of_mapSet laterThan_irrefl)
    next
      case (Some prev)
      then show ?thesis
        by (cases "laterThan (tv D it) (tv D prev)") (simp_all add: map_of_mapSet laterThan_irrefl)
    qed
    then obtain s' where s': "map_of ?m' k = Some s'" "\<not> laterThan (tv D it) (tv D s')"
      by blast
    from dedupLoop_present [OF s'(1), of D rest] obtain s where
      s: "map_of (dedupLoop D rest ?m') k = Some s" by blast
    from dedupLoop_notLater [OF s'(1) s'(2) s] s step True show ?thesis by simp
  next
    case False
    with Cons.prems have "b \<in> set rest" by simp
    from Cons.IH [OF this Cons.prems(2)] show ?thesis
      by (auto simp: Let_def split: option.splits)
  qed
qed

lemma dedupLoop_step:
  "\<exists>m'. dedupLoop D (it # rest) m = dedupLoop D rest m' \<and>
        (m' = m \<or> m' = mapSet (dedupKey it) it m)"
  by (cases "map_of m (dedupKey it)") (auto simp: Let_def)

lemma dedupLoop_origin:
  "e \<in> set (dedupLoop D all m) \<Longrightarrow> e \<in> set m \<or> snd e \<in> set all"
proof (induction all arbitrary: m)
  case Nil
  then show ?case by simp
next
  case (Cons it rest)
  from dedupLoop_step [of D it rest m] obtain m' where
    step: "dedupLoop D (it # rest) m = dedupLoop D rest m'" and
    m': "m' = m \<or> m' = mapSet (dedupKey it) it m" by blast
  from Cons.prems step have "e \<in> set (dedupLoop D rest m')" by simp
  from Cons.IH [OF this] have "e \<in> set m' \<or> snd e \<in> set rest" .
  moreover have "e \<in> set m' \<Longrightarrow> e \<in> set m \<or> snd e = it"
    using m' values_mapSet [of "dedupKey it" it m] by auto
  ultimately show ?case by auto
qed

lemma keyed_filter:
  "keyed m \<Longrightarrow> map_of m k = Some s \<Longrightarrow> filter (\<lambda>x. dedupKey x = k) (map snd m) = [s]"
proof (induction m)
  case Nil
  then show ?case by simp
next
  case (Cons e m)
  have km: "keyed m" using Cons.prems(1) by (simp add: keyed_def)
  show ?case
  proof (cases "fst e = k")
    case True
    have "\<forall>e' \<in> set m. dedupKey (snd e') \<noteq> k"
      using Cons.prems(1) True by (auto simp: keyed_def image_iff)
    then have "filter (\<lambda>x. dedupKey x = k) (map snd m) = []"
      by (auto simp: filter_empty_conv)
    with True Cons.prems show ?thesis by (cases e) (auto simp: keyed_def)
  next
    case False
    with Cons.prems have "map_of m k = Some s" by (cases e) auto
    from Cons.IH [OF km this] False Cons.prems(1) show ?thesis by (auto simp: keyed_def)
  qed
qed

lemma dedup_subset: "set (dedup D all) \<subseteq> set all"
  unfolding dedup_def using dedupLoop_origin [of _ D all "[]"] by auto

text \<open>
  C3, as the specification states it, fails: a missing \<open>pubDate\<close> is not the earliest
  possible date but the epoch. Of two items with the same key, one dated one second
  before the epoch and one without a date, the one without a date survives.
\<close>

theorem dedup_missing_date_counterexample:
  "dedupKey itemOld = dedupKey itemUndated
   \<and> timeOf sampleDates (pubDate itemOld) = Some (- 1000)
   \<and> pubDate itemUndated = Null
   \<and> dedup sampleDates [itemOld, itemUndated] = [itemUndated]"
  by code_simp

text \<open>
  C3, amended. For every item \<open>a\<close> of the accepted items, exactly one item with the
  deduplication key of \<open>a\<close> (the lower-case source joined to the lower-case title by
  \<open>__\<close>) survives deduplication. It is an item of the list, and no item of the list
  with that key has a \<open>pubDate\<close> later than the survivor's; so of a pair with equal
  keys the item with the earlier \<open>pubDate\<close> never survives. "Later" is the comparison
  the script makes: a missing \<open>pubDate\<close> counts as the epoch (time value 0), and a
  \<open>pubDate\<close> that does not parse is never later than another.
\<close>

theorem dedup_keeps_latest:
  assumes "a \<in> set all"
  shows "\<exists>s. filter (\<lambda>x. dedupKey x = dedupKey a) (dedup D all) = [s] \<and> s \<in> set all \<and>
             (\<forall>b \<in> set all. dedupKey b = dedupKey a \<longrightarrow>
                \<not> laterThan (timeOf D (pubDate b)) (timeOf D (pubDate s)) \<and>
                (laterThan (timeOf D (pubDate b)) (timeOf D (pubDate a)) \<longrightarrow> a \<notin> set (dedup D all)))"
proof -
  have k: "keyed (dedupLoop D all [])" by (rule keyed_dedupLoop) (simp add: keyed_def)
  from dedupLoop_latest [OF assms refl, of D "[]"] obtain s where
    s: "map_of (dedupLoop D all []) (dedupKey a) = Some s" by blast
  have f: "filter (\<lambda>x. dedupKey x = dedupKey a) (dedup D all) = [s]"
    unfolding dedup_def by (rule keyed_filter [OF k s])
  have "(dedupKey a, s) \<in> set (dedupLoop D all [])" using s by (rule map_of_SomeD)
  from dedupLoop_origin [OF this] have o: "s \<in> set all" by simp
  have surv: "a = s" if "a \<in> set (dedup D all)"
  proof -
    from that have "a \<in> set (filter (\<lambda>x. dedupKey x = dedupKey a) (dedup D all))" by simp
    with f show ?thesis by simp
  qed
  have "\<forall>b \<in> set all. dedupKey b = dedupKey a \<longrightarrow>
          \<not> laterThan (tv D b) (tv D s) \<and> (laterThan (tv D b) (tv D a) \<longrightarrow> a \<notin> set (dedup D all))"
  proof (intro ballI impI)
    fix b assume b: "b \<in> set all" "dedupKey b = dedupKey a"
    from dedupLoop_latest [OF this, of D "[]"] s have n: "\<not> laterThan (tv D b) (tv D s)" by simp
    show "\<not> laterThan (tv D b) (tv D s) \<and> (laterThan (tv D b) (tv D a) \<longrightarrow> a \<notin> set (dedup D all))"
      using n surv by blast
  qed
  with f o show ?thesis by blast
qed

theorem dedup_keeps_latest_witness:
  "itemOld \<in> set [itemOld, itemUndated, itemNew, itemOther]
   \<and> dedupKey itemUndated = dedupKey itemOld
   \<and> laterThan (timeOf sampleDates (pubDate itemUndated)) (timeOf sampleDates (pubDate itemOld))
   \<and> dedup sampleDates [itemOld, itemUndated, itemNew, itemOther] = [itemUndated, itemNew, itemOther]
   \<and> (\<exists>s. filter (\<lambda>x. dedupKey x = dedupKey itemOld)
              (dedup sampleDates [itemOld, itemUndated, itemNew, itemOther]) = [s]
          \<and> s \<in> set [itemOld, itemUndated, itemNew, itemOther]
          \<and> (\<forall>b \<in> set [itemOld, itemUndated, itemNew, itemOther]. dedupKey b = dedupKey itemOld \<longrightarrow>
                \<not> laterThan (timeOf sampleDates (pubDate b)) (timeOf sampleDates (pubDate s)) \<and>
                (laterThan (timeOf sampleDates (pubDate b)) (timeOf sampleDates (pubDate itemOld)) \<longrightarrow>
                   itemOld \<notin> set (dedup sampleDates [itemOld, itemUndated, itemNew, itemOther]))))"
proof -
  have m: "itemOld \<in> set [itemOld, itemUndated, itemNew, itemOther]" by simp
  have e: "dedupKey itemUndated = dedupKey itemOld
    \<and> laterThan (timeOf sampleDates (pubDate itemUndated)) (timeOf sampleDates (pubDate itemOld))
    \<and> dedup sampleDates [itemOld, itemUndated, itemNew, itemOther] = [itemUndated, itemNew, itemOther]"
    by code_simp
  from m e dedup_keeps_latest [OF m, of sampleDates] show ?thesis by blast
qed

section \<open>Properties of the ranking\<close>

lemma set_insertBy: "set (insertBy cmp x ys) = insert x (set ys)"
  by (induction ys) auto

lemma set_sortJS: "set (sortJS cmp xs) = set xs"
  by (induction xs) (simp_all add: sortJS_def set_insertBy)

lemma length_insertBy: "length (insertBy cmp x ys) = Suc (length ys)"
  by (induction ys) auto

lemma length_sortJS: "length (sortJS cmp xs) = length xs"
  by (induction xs) (simp_all add: sortJS_def length_insertBy)

lemma sorted_insertBy:
  fixes f :: "'a \<Rightarrow> int"
  assumes "sorted_wrt (\<lambda>a b. f b \<le> f a) ys"
      and "\<forall>y \<in> set ys. (cmpValue (cmp x y) \<le> 0) = (f y \<le> f x)"
  shows "sorted_wrt (\<lambda>a b. f b \<le> f a) (insertBy cmp x ys)"
  using assms
proof (induction ys)
  case Nil
  then show ?case by simp
next
  case (Cons y ys)
  show ?case
  proof (cases "cmpValue (cmp x y) \<le> 0")
    case True
    with Cons.prems have "f y \<le> f x" by simp
    moreover from Cons.prems(1) have "\<forall>z \<in> set ys. f z \<le> f y" by simp
    ultimately have "\<forall>z \<in> set (y # ys). f z \<le> f x" by auto
    with True Cons.prems(1) show ?thesis by simp
  next
    case False
    with Cons.prems have xy: "f x \<le> f y" by auto
    have "sorted_wrt (\<lambda>a b. f b \<le> f a) (insertBy cmp x ys)"
      using Cons.IH Cons.prems by simp
    with False xy Cons.prems(1) show ?thesis by (auto simp: set_insertBy)
  qed
qed

lemma sorted_sortJS:
  fixes f :: "'a \<Rightarrow> int"
  assumes "\<forall>x \<in> set xs. \<forall>y \<in> set xs. (cmpValue (cmp x y) \<le> 0) = (f y \<le> f x)"
  shows "sorted_wrt (\<lambda>a b. f b \<le> f a) (sortJS cmp xs)"
  using assms
proof (induction xs)
  case Nil
  then show ?case by (simp add: sortJS_def)
next
  case (Cons x xs)
  have "sorted_wrt (\<lambda>a b. f b \<le> f a) (sortJS cmp xs)" using Cons by simp
  moreover have "\<forall>y \<in> set (sortJS cmp xs). (cmpValue (cmp x y) \<le> 0) = (f y \<le> f x)"
    using Cons.prems by (simp add: set_sortJS)
  ultimately have "sorted_wrt (\<lambda>a b. f b \<le> f a) (insertBy cmp x (sortJS cmp xs))"
    by (rule sorted_insertBy)
  then show ?case by (simp add: sortJS_def)
qed

lemma timeOf_valid:
  "(\<forall>s. pubDate it = Str s \<longrightarrow> s \<noteq> [] \<longrightarrow> D s \<noteq> None) \<Longrightarrow>
     timeOf D (pubDate it) = Some (timeValue D it)"
  by (cases "pubDate it") (auto simp: timeOf_def timeValue_def truthy_def orEmpty_def)

lemma byDateDesc_valid:
  "(\<forall>s. pubDate x = Str s \<longrightarrow> s \<noteq> [] \<longrightarrow> D s \<noteq> None) \<Longrightarrow>
   (\<forall>s. pubDate y = Str s \<longrightarrow> s \<noteq> [] \<longrightarrow> D s \<noteq> None) \<Longrightarrow>
     (cmpValue (byDateDesc D x y) \<le> 0) = (timeValue D y \<le> timeValue D x)"
  by (simp add: byDateDesc_def cmpValue_def timeOf_valid)

lemma count_insertBy: "count_list (insertBy cmp x ys) y = count_list (x # ys) y"
  by (induction ys) auto

lemma count_sortJS: "count_list (sortJS cmp xs) y = count_list xs y"
  by (induction xs) (simp_all add: sortJS_def count_insertBy)

text \<open>
  C4, as the specification states it, fails: an item without a \<open>pubDate\<close> does not sort
  as the oldest. It sorts at the epoch, before an item dated one second earlier.
\<close>

theorem rank_missing_date_counterexample:
  "pubDate itemOld = Str ''1969-12-31T23:59:59.000Z''
   \<and> sampleDates ''1969-12-31T23:59:59.000Z'' = Some (- 1000)
   \<and> pubDate itemOther = Null
   \<and> rank sampleDates [itemOld, itemOther] = [itemOther, itemOld]"
  by code_simp

text \<open>
  C4, amended. When every \<open>pubDate\<close> that is present parses as a date, the \<open>items\<close>
  list written to the news artifact is the first 200 items (all of them, when there are
  fewer) of the survivors of the deduplication sorted so that the time values are
  non-increasing, an item without a \<open>pubDate\<close> sorting at the epoch (time value 0): the
  list followed by the items left out is a rearrangement of the survivors in
  non-increasing order.
\<close>

theorem rank_sorted_capped:
  assumes "\<forall>it \<in> set all. \<forall>s. pubDate it = Str s \<longrightarrow> s \<noteq> [] \<longrightarrow> D s \<noteq> None"
  shows "\<exists>rest. (\<forall>x. count_list (rank D all @ rest) x = count_list (dedup D all) x)
           \<and> sorted_wrt (\<lambda>a b. timeValue D b \<le> timeValue D a) (rank D all @ rest)
           \<and> length (rank D all) = min 200 (length (dedup D all))"
proof -
  let ?S = "sortJS (byDateDesc D) (dedup D all)"
  have v: "\<forall>x \<in> set (dedup D all). \<forall>y \<in> set (dedup D all).
             (cmpValue (byDateDesc D x y) \<le> 0) = (timeValue D y \<le> timeValue D x)"
  proof (intro ballI)
    fix x y assume "x \<in> set (dedup D all)" "y \<in> set (dedup D all)"
    then have "x \<in> set all" "y \<in> set all" using dedup_subset [of D all] by auto
    with assms show "(cmpValue (byDateDesc D x y) \<le> 0) = (timeValue D y \<le> timeValue D x)"
      by (intro byDateDesc_valid) auto
  qed
  have s: "sorted_wrt (\<lambda>a b. timeValue D b \<le> timeValue D a) ?S"
    using v by (rule sorted_sortJS)
  have r: "rank D all @ drop 200 ?S = ?S" by (simp add: rank_def)
  have 1: "\<forall>x. count_list (rank D all @ drop 200 ?S) x = count_list (dedup D all) x"
    by (simp only: r count_sortJS) simp
  have 2: "sorted_wrt (\<lambda>a b. timeValue D b \<le> timeValue D a) (rank D all @ drop 200 ?S)"
    using s by (simp only: r)
  have 3: "length (rank D all) = min 200 (length (dedup D all))"
    by (simp add: rank_def length_sortJS min.commute)
  from 1 2 3 show ?thesis by blast
qed

theorem rank_sorted_capped_witness:
  "list_all (\<lambda>it. \<forall>s. pubDate it = Str s \<longrightarrow> s \<noteq> [] \<longrightarrow> sampleDates s \<noteq> None)
     [itemOld, itemOther, itemNew]
   \<and> dedup sampleDates [itemOld, itemOther, itemNew] = [itemOld, itemOther, itemNew]
   \<and> rank sampleDates [itemOld, itemOther, itemNew] = [itemNew, itemOther, itemOld]
   \<and> map (timeValue sampleDates) [itemNew, itemOther, itemOld] = [1714564800000, 0, - 1000]
   \<and> (\<exists>rest. (\<forall>x. count_list (rank sampleDates [itemOld, itemOther, itemNew] @ rest) x
                    = count_list (dedup sampleDates [itemOld, itemOther, itemNew]) x)
         \<and> sorted_wrt (\<lambda>a b. timeValue sampleDates b \<le> timeValue sampleDates a)
              (rank sampleDates [itemOld, itemOther, itemNew] @ rest)
         \<and> length (rank sampleDates [itemOld, itemOther, itemNew])
             = min 200 (length (dedup sampleDates [itemOld, itemOther, itemNew])))"
proof -
  have v: "\<forall>it \<in> set [itemOld, itemOther, itemNew].
             \<forall>s. pubDate it = Str s \<longrightarrow> s \<noteq> [] \<longrightarrow> sampleDates s \<noteq> None"
    by (simp add: itemOld_def itemOther_def itemNew_def sampleDates_def)
  then have v': "list_all (\<lambda>it. \<forall>s. pubDate it = Str s \<longrightarrow> s \<noteq> [] \<longrightarrow> sampleDates s \<noteq> None)
     [itemOld, itemOther, itemNew]"
    by (simp only: list_all_iff)
  have d: "dedup sampleDates [itemOld, itemOther, itemNew] = [itemOld, itemOther, itemNew]"
    by code_simp
  have r: "rank sampleDates [itemOld, itemOther, itemNew] = [itemNew, itemOther, itemOld]"
    by code_simp
  have t: "map (timeValue sampleDates) [itemNew, itemOther, itemOld] = [1714564800000, 0, - 1000]"
    by code_simp
  from v' d r t rank_sorted_capped [OF v] show ?thesis by blast
qed

section \<open>Properties of the fetcher\<close>

lemma loop_failed:
  "parseWithFallbackLoop P cands lastErr w = (Inl e, reqs, w') \<Longrightarrow>
     replay P cands w = (reqs, w') \<and> list_all (\<lambda>q. failed (snd q)) reqs"
proof (induction cands arbitrary: lastErr w reqs)
  case Nil
  then show ?case by simp
next
  case (Cons url rest)
  obtain r w1 where p: "P url w = (r, w1)" by (cases "P url w")
  show ?case
  proof (cases r)
    case (Inl e1)
    obtain r2 reqs2 w2 where l: "parseWithFallbackLoop P rest (Some e1) w1 = (r2, reqs2, w2)"
      by (cases "parseWithFallbackLoop P rest (Some e1) w1")
    from Cons.prems p Inl l have "r2 = Inl e" "reqs = (url, Inl e1) # reqs2" "w' = w2" by simp_all
    with Cons.IH [of "Some e1" w1 reqs2] l p Inl show ?thesis by (simp add: failed_def)
  next
    case (Inr feed)
    show ?thesis
    proof (cases "hasItems feed")
      case True
      with Cons.prems p Inr show ?thesis by simp
    next
      case False
      obtain r2 reqs2 w2 where l: "parseWithFallbackLoop P rest lastErr w1 = (r2, reqs2, w2)"
        by (cases "parseWithFallbackLoop P rest lastErr w1")
      from Cons.prems p Inr False l have "r2 = Inl e" "reqs = (url, Inr feed) # reqs2" "w' = w2"
        by simp_all
      with Cons.IH [of lastErr w1 reqs2] l p Inr False show ?thesis by (simp add: failed_def)
    qed
  qed
qed

lemma loop_success:
  "parseWithFallbackLoop P cands lastErr w = (Inr (feed, url), reqs, w') \<Longrightarrow>
     \<exists>pre post. cands = pre @ url # post \<and> replay P (pre @ [url]) w = (reqs, w')
       \<and> map fst reqs = pre @ [url] \<and> list_all (\<lambda>q. failed (snd q)) (butlast reqs)
       \<and> last reqs = (url, Inr feed) \<and> hasItems feed"
proof (induction cands arbitrary: lastErr w reqs)
  case Nil
  then show ?case by simp
next
  case (Cons c rest)
  obtain r w1 where p: "P c w = (r, w1)" by (cases "P c w")
  have tail: ?case
    if l: "parseWithFallbackLoop P rest le w1 = (Inr (feed, url), reqs2, w')"
      and rq: "reqs = (c, r) # reqs2" and f: "failed r" for le reqs2
  proof -
    from Cons.IH [OF l] obtain pre post where
      h: "rest = pre @ url # post" "replay P (pre @ [url]) w1 = (reqs2, w')"
         "map fst reqs2 = pre @ [url]" "list_all (\<lambda>q. failed (snd q)) (butlast reqs2)"
         "last reqs2 = (url, Inr feed)" "hasItems feed" by blast
    from h(3) have ne: "reqs2 \<noteq> []" by auto
    have "c # rest = (c # pre) @ url # post" using h(1) by simp
    moreover have "replay P ((c # pre) @ [url]) w = (reqs, w')" using p h(2) rq by simp
    moreover have "map fst reqs = (c # pre) @ [url]" using h(3) rq by simp
    moreover have "list_all (\<lambda>q. failed (snd q)) (butlast reqs)" using h(4) rq ne f by simp
    moreover have "last reqs = (url, Inr feed)" using h(5) rq ne by simp
    ultimately show ?thesis using h(6) by blast
  qed
  show ?case
  proof (cases r)
    case (Inl e1)
    obtain r2 reqs2 w2 where l: "parseWithFallbackLoop P rest (Some e1) w1 = (r2, reqs2, w2)"
      by (cases "parseWithFallbackLoop P rest (Some e1) w1")
    from Cons.prems p Inl l have "r2 = Inr (feed, url)" "reqs = (c, r) # reqs2" "w2 = w'"
      by simp_all
    with l Inl show ?thesis by (intro tail [of "Some e1" reqs2]) (simp_all add: failed_def)
  next
    case (Inr fd)
    show ?thesis
    proof (cases "hasItems fd")
      case True
      with Cons.prems p Inr have "fd = feed" "c = url" "reqs = [(url, Inr feed)]" "w' = w1"
        by auto
      with p Inr True have "c # rest = [] @ url # rest \<and> replay P ([] @ [url]) w = (reqs, w')
        \<and> map fst reqs = [] @ [url] \<and> list_all (\<lambda>q. failed (snd q)) (butlast reqs)
        \<and> last reqs = (url, Inr feed) \<and> hasItems feed" by simp
      then show ?thesis by blast
    next
      case False
      obtain r2 reqs2 w2 where l: "parseWithFallbackLoop P rest lastErr w1 = (r2, reqs2, w2)"
        by (cases "parseWithFallbackLoop P rest lastErr w1")
      from Cons.prems p Inr False l have "r2 = Inr (feed, url)" "reqs = (c, r) # reqs2" "w2 = w'"
        by simp_all
      with l Inr False show ?thesis by (intro tail [of lastErr reqs2]) (simp_all add: failed_def)
    qed
  qed
qed

lemma loop_all_failed:
  "replay P cands w = (reqs, w') \<Longrightarrow> list_all (\<lambda>q. failed (snd q)) reqs \<Longrightarrow>
     \<exists>e. parseWithFallbackLoop P cands lastErr w = (Inl e, reqs, w')"
proof (induction cands arbitrary: lastErr w reqs w')
  case Nil
  then show ?case by simp
next
  case (Cons c rest)
  obtain r w1 where p: "P c w = (r, w1)" by (cases "P c w")
  obtain rs w2 where rp: "replay P rest w1 = (rs, w2)" by (cases "replay P rest w1")
  from Cons.prems(1) p rp have rq: "reqs = (c, r) # rs" "w' = w2" by simp_all
  with Cons.prems(2) have f: "failed r" "list_all (\<lambda>q. failed (snd q)) rs" by simp_all
  show ?case
  proof (cases r)
    case (Inl e1)
    from Cons.IH [OF rp f(2), of "Some e1"] obtain e where
      "parseWithFallbackLoop P rest (Some e1) w1 = (Inl e, rs, w2)" by blast
    with p Inl rq show ?thesis by simp
  next
    case (Inr fd)
    with f(1) have nh: "\<not> hasItems fd" by (simp add: failed_def)
    from Cons.IH [OF rp f(2), of lastErr] obtain e where
      "parseWithFallbackLoop P rest lastErr w1 = (Inl e, rs, w2)" by blast
    with p Inr nh rq show ?thesis by simp
  qed
qed

lemma fetchLoop_acc:
  "fetchLoop P srcs all log w =
     (case fetchLoop P srcs [] [] w of (a, l, w') \<Rightarrow> (all @ a, log @ l, w'))"
proof (induction srcs arbitrary: all log w)
  case Nil
  then show ?case by simp
next
  case (Cons src rest)
  obtain r reqs w1 where p: "parseWithFallback P (candidates src) w = (r, reqs, w1)"
    by (cases "parseWithFallback P (candidates src) w")
  show ?case
  proof (cases r)
    case (Inl e)
    have "fetchLoop P (src # rest) all log w
            = fetchLoop P rest all (log @ [FeedFailed (name src) (errText e)]) w1"
      using p Inl by simp
    moreover have "fetchLoop P (src # rest) [] [] w
            = fetchLoop P rest [] [FeedFailed (name src) (errText e)] w1"
      using p Inl by simp
    ultimately show ?thesis
      using Cons.IH [of all "log @ [FeedFailed (name src) (errText e)]" w1]
            Cons.IH [of "[]" "[FeedFailed (name src) (errText e)]" w1]
      by (simp split: prod.splits)
  next
    case (Inr fu)
    obtain feed url where fu: "fu = (feed, url)" by (cases fu)
    have "fetchLoop P (src # rest) all log w = fetchLoop P rest (all @ fromFeed feed src) log w1"
      using p Inr fu by simp
    moreover have "fetchLoop P (src # rest) [] [] w = fetchLoop P rest (fromFeed feed src) [] w1"
      using p Inr fu by simp
    ultimately show ?thesis
      using Cons.IH [of "all @ fromFeed feed src" log w1] Cons.IH [of "fromFeed feed src" "[]" w1]
      by (simp split: prod.splits)
  qed
qed

lemma fetchLoop_append:
  "fetchLoop P (xs @ ys) all log w =
     (case fetchLoop P xs all log w of (a, l, w1) \<Rightarrow> fetchLoop P ys a l w1)"
proof (induction xs arbitrary: all log w)
  case Nil
  then show ?case by simp
next
  case (Cons src rest)
  obtain r reqs w1 where p: "parseWithFallback P (candidates src) w = (r, reqs, w1)"
    by (cases "parseWithFallback P (candidates src) w")
  show ?case
  proof (cases r)
    case (Inl e)
    with p Cons.IH show ?thesis by simp
  next
    case (Inr fu)
    obtain feed url where fu: "fu = (feed, url)" by (cases fu)
    with p Inr Cons.IH show ?thesis by simp
  qed
qed

text \<open>
  C5. The candidates of a source are tried in the listed order. When \<open>parseWithFallback\<close>
  accepts a feed, the requests it made are the candidates up to the accepted one, in
  order; every one before the accepted one failed, the accepted one answered with a feed
  that has an entry, and no later candidate was requested. In particular, when the first
  candidate fails and the second succeeds, the items of the source are those of the
  second candidate's feed alone. It gives up only when every candidate was requested and
  failed.
\<close>

theorem parseWithFallback_first_success:
  "(parseWithFallback P cands w = (Inr (feed, url), reqs, w') \<longrightarrow>
      (\<exists>pre post. cands = pre @ url # post \<and> replay P (pre @ [url]) w = (reqs, w')
         \<and> map fst reqs = pre @ [url] \<and> list_all (\<lambda>q. failed (snd q)) (butlast reqs)
         \<and> last reqs = (url, Inr feed) \<and> hasItems feed))
   \<and> (P c1 w = (r1, w1) \<and> failed r1 \<and> P c2 w1 = (Inr feed2, w2) \<and> hasItems feed2
        \<and> candidates src = c1 # c2 # rest \<longrightarrow>
        parseWithFallback P (candidates src) w = (Inr (feed2, c2), [(c1, r1), (c2, Inr feed2)], w2)
        \<and> fetchLoop P [src] all log w = (all @ fromFeed feed2 src, log, w2))
   \<and> (parseWithFallback P cands w = (Inl err, reqs, w') \<longrightarrow>
        replay P cands w = (reqs, w') \<and> list_all (\<lambda>q. failed (snd q)) reqs)"
proof (intro conjI impI)
  assume "parseWithFallback P cands w = (Inr (feed, url), reqs, w')"
  then show "\<exists>pre post. cands = pre @ url # post \<and> replay P (pre @ [url]) w = (reqs, w')
         \<and> map fst reqs = pre @ [url] \<and> list_all (\<lambda>q. failed (snd q)) (butlast reqs)
         \<and> last reqs = (url, Inr feed) \<and> hasItems feed"
    unfolding parseWithFallback_def by (rule loop_success)
next
  assume a: "P c1 w = (r1, w1) \<and> failed r1 \<and> P c2 w1 = (Inr feed2, w2) \<and> hasItems feed2
        \<and> candidates src = c1 # c2 # rest"
  then have p: "parseWithFallback P (candidates src) w
                  = (Inr (feed2, c2), [(c1, r1), (c2, Inr feed2)], w2)"
    by (cases r1) (auto simp: parseWithFallback_def failed_def)
  then show "parseWithFallback P (candidates src) w
                  = (Inr (feed2, c2), [(c1, r1), (c2, Inr feed2)], w2)" .
  from p show "fetchLoop P [src] all log w = (all @ fromFeed feed2 src, log, w2)" by simp
next
  assume "parseWithFallback P cands w = (Inl err, reqs, w')"
  then have "replay P cands w = (reqs, w') \<and> list_all (\<lambda>q. failed (snd q)) reqs"
    unfolding parseWithFallback_def by (rule loop_failed)
  then show "replay P cands w = (reqs, w')" and "list_all (\<lambda>q. failed (snd q)) reqs"
    by simp_all
qed

theorem parseWithFallback_first_success_witness:
  "skySource \<in> set SOURCES
   \<and> parseWithFallback sampleNet (candidates skySource) 0
       = (Inr (sampleFeed, ''https://news.sky.com/feeds/rss/politics.xml''),
          [(''http://feeds.skynews.com/feeds/rss/politics.xml'', Inl (Error ''Status code 404'')),
           (''https://news.sky.com/feeds/rss/politics.xml'', Inr sampleFeed)], 2)
   \<and> (\<exists>pre post. candidates skySource = pre @ ''https://news.sky.com/feeds/rss/politics.xml'' # post
         \<and> replay sampleNet (pre @ [''https://news.sky.com/feeds/rss/politics.xml'']) 0
             = ([(''http://feeds.skynews.com/feeds/rss/politics.xml'', Inl (Error ''Status code 404'')),
                 (''https://news.sky.com/feeds/rss/politics.xml'', Inr sampleFeed)], 2))
   \<and> failed (Inl (Error ''Status code 404''))
   \<and> hasItems sampleFeed
   \<and> fetchLoop sampleNet [skySource] [] [] 0 = (fromFeed sampleFeed skySource, [], 2)
   \<and> parseWithFallback sampleNet (candidates lepSource) 0
       = (Inl (Error ''Status code 404''),
          [(''https://www.lep.co.uk/rss'', Inr emptyFeed),
           (''https://www.lep.co.uk/news/rss'', Inl (Error ''Status code 404''))], 2)
   \<and> replay sampleNet (candidates lepSource) 0
       = ([(''https://www.lep.co.uk/rss'', Inr emptyFeed),
           (''https://www.lep.co.uk/news/rss'', Inl (Error ''Status code 404''))], 2)
   \<and> failed (Inr emptyFeed)"
proof -
  have s: "skySource \<in> set SOURCES" by code_simp
  have p: "parseWithFallback sampleNet (candidates skySource) 0
       = (Inr (sampleFeed, ''https://news.sky.com/feeds/rss/politics.xml''),
          [(''http://feeds.skynews.com/feeds/rss/politics.xml'', Inl (Error ''Status code 404'')),
           (''https://news.sky.com/feeds/rss/politics.xml'', Inr sampleFeed)], 2)"
    by code_simp
  have h: "sampleNet ''http://feeds.skynews.com/feeds/rss/politics.xml'' 0 = (Inl (Error ''Status code 404''), 1)
     \<and> failed (Inl (Error ''Status code 404''))
     \<and> sampleNet ''https://news.sky.com/feeds/rss/politics.xml'' 1 = (Inr sampleFeed, 2)
     \<and> hasItems sampleFeed
     \<and> candidates skySource = ''http://feeds.skynews.com/feeds/rss/politics.xml'' #
          ''https://news.sky.com/feeds/rss/politics.xml'' # []"
    by code_simp
  note t = parseWithFallback_first_success [of sampleNet "candidates skySource" 0 sampleFeed
      "''https://news.sky.com/feeds/rss/politics.xml''"
      "[(''http://feeds.skynews.com/feeds/rss/politics.xml'', Inl (Error ''Status code 404'')),
        (''https://news.sky.com/feeds/rss/politics.xml'', Inr sampleFeed)]" 2
      "''http://feeds.skynews.com/feeds/rss/politics.xml''" "Inl (Error ''Status code 404'')" 1
      "''https://news.sky.com/feeds/rss/politics.xml''" sampleFeed 2 skySource "[]" "[]" "[]"]
  from t p have 1: "\<exists>pre post. candidates skySource = pre @ ''https://news.sky.com/feeds/rss/politics.xml'' # post
         \<and> replay sampleNet (pre @ [''https://news.sky.com/feeds/rss/politics.xml'']) 0
             = ([(''http://feeds.skynews.com/feeds/rss/politics.xml'', Inl (Error ''Status code 404'')),
                 (''https://news.sky.com/feeds/rss/politics.xml'', Inr sampleFeed)], 2)"
    by blast
  from t h have 2: "fetchLoop sampleNet [skySource] [] [] 0 = (fromFeed sampleFeed skySource, [], 2)"
    by simp
  have f: "parseWithFallback sampleNet (candidates lepSource) 0
       = (Inl (Error ''Status code 404''),
          [(''https://www.lep.co.uk/rss'', Inr emptyFeed),
           (''https://www.lep.co.uk/news/rss'', Inl (Error ''Status code 404''))], 2)"
    by code_simp
  from f parseWithFallback_first_success [where P = sampleNet and cands = "candidates lepSource"
      and w = 0 and err = "Error ''Status code 404''" and w' = 2
      and reqs = "[(''https://www.lep.co.uk/rss'', Inr emptyFeed),
                   (''https://www.lep.co.uk/news/rss'', Inl (Error ''Status code 404''))]"]
  have 3: "replay sampleNet (candidates lepSource) 0
       = ([(''https://www.lep.co.uk/rss'', Inr emptyFeed),
           (''https://www.lep.co.uk/news/rss'', Inl (Error ''Status code 404''))], 2)
     \<and> failed (Inr emptyFeed)"
    by simp
  from s p 1 2 h f 3 show ?thesis by blast
qed

text \<open>
  C6. When every candidate of a source fails (an error, or a feed without entries), the
  source is skipped: the run over all the sources collects exactly the items of the
  sources before and after it, the console gets the line that names the failed source,
  and the run goes on to rank the items and to write the news artifact.
\<close>

theorem failed_source_is_skipped:
  assumes "fetchLoop P pre [] [] w = (a1, l1, w1)"
      and "replay P (candidates src) w1 = (reqs, w2)"
      and "list_all (\<lambda>q. failed (snd q)) reqs"
      and "fetchLoop P post [] [] w2 = (a3, l3, w3)"
  shows "\<exists>e. parseWithFallback P (candidates src) w1 = (Inl e, reqs, w2)
           \<and> fetchLoop P (pre @ src # post) [] [] w
               = (a1 @ a3, l1 @ FeedFailed (name src) (errText e) # l3, w3)
           \<and> fetchNewsOn P D (pre @ src # post) w
               = (rank D (a1 @ a3),
                  l1 @ FeedFailed (name src) (errText e) # l3 @ [WroteItems (length (rank D (a1 @ a3)))],
                  w3)"
proof -
  from loop_all_failed [OF assms(2,3), of None] obtain e where
    e: "parseWithFallback P (candidates src) w1 = (Inl e, reqs, w2)"
    unfolding parseWithFallback_def by blast
  have "fetchLoop P (src # post) a1 l1 w1
          = fetchLoop P post a1 (l1 @ [FeedFailed (name src) (errText e)]) w2"
    using e by simp
  also have "\<dots> = (a1 @ a3, (l1 @ [FeedFailed (name src) (errText e)]) @ l3, w3)"
    using fetchLoop_acc [of P post a1 "l1 @ [FeedFailed (name src) (errText e)]" w2] assms(4)
    by simp
  finally have t: "fetchLoop P (src # post) a1 l1 w1
                     = (a1 @ a3, l1 @ FeedFailed (name src) (errText e) # l3, w3)" by simp
  have l: "fetchLoop P (pre @ src # post) [] [] w
             = (a1 @ a3, l1 @ FeedFailed (name src) (errText e) # l3, w3)"
    using fetchLoop_append [of P pre "src # post" "[]" "[]" w] assms(1) t by simp
  then have "fetchNewsOn P D (pre @ src # post) w
               = (rank D (a1 @ a3),
                  l1 @ FeedFailed (name src) (errText e) # l3 @ [WroteItems (length (rank D (a1 @ a3)))],
                  w3)"
    by (simp add: fetchNewsOn_def Let_def)
  with e l show ?thesis by blast
qed

theorem failed_source_is_skipped_witness:
  "lepSource \<in> set SOURCES
   \<and> fetchLoop sampleNet [] [] [] 0 = ([], [], 0)
   \<and> replay sampleNet (candidates lepSource) 0
       = ([(''https://www.lep.co.uk/rss'', Inr emptyFeed),
           (''https://www.lep.co.uk/news/rss'', Inl (Error ''Status code 404''))], 2)
   \<and> list_all (\<lambda>q. failed (snd q))
        [(''https://www.lep.co.uk/rss'', Inr emptyFeed),
         (''https://www.lep.co.uk/news/rss'', Inl (Error ''Status code 404''))]
   \<and> fetchLoop sampleNet [skySource] [] [] 2 = (fromFeed sampleFeed skySource, [], 4)
   \<and> fetchNewsOn sampleNet sampleDates ([] @ lepSource # [skySource]) 0
       = (rank sampleDates (fromFeed sampleFeed skySource),
          [FeedFailed ''Lancashire Evening Post'' ''Status code 404'',
           WroteItems (length (rank sampleDates (fromFeed sampleFeed skySource)))], 4)
   \<and> length (rank sampleDates (fromFeed sampleFeed skySource)) = 1"
proof -
  have s: "lepSource \<in> set SOURCES" by code_simp
  have a1: "fetchLoop sampleNet [] [] [] 0 = ([], [], 0)" by simp
  have a2: "replay sampleNet (candidates lepSource) 0
       = ([(''https://www.lep.co.uk/rss'', Inr emptyFeed),
           (''https://www.lep.co.uk/news/rss'', Inl (Error ''Status code 404''))], 2)"
    by code_simp
  have a3: "list_all (\<lambda>q. failed (snd q))
        [(''https://www.lep.co.uk/rss'', Inr emptyFeed),
         (''https://www.lep.co.uk/news/rss'', Inl (Error ''Status code 404''))]"
    by code_simp
  have a4: "fetchLoop sampleNet [skySource] [] [] 2 = (fromFeed sampleFeed skySource, [], 4)"
    by code_simp
  have n: "name lepSource = ''Lancashire Evening Post''" by (simp add: lepSource_def)
  have p: "parseWithFallback sampleNet (candidates lepSource) 0
       = (Inl (Error ''Status code 404''),
          [(''https://www.lep.co.uk/rss'', Inr emptyFeed),
           (''https://www.lep.co.uk/news/rss'', Inl (Error ''Status code 404''))], 2)"
    by code_simp
  have t: "errText (Error ''Status code 404'') = ''Status code 404''" by (simp add: errText_def)
  have c: "length (rank sampleDates (fromFeed sampleFeed skySource)) = 1" by code_simp
  from failed_source_is_skipped [OF a1 a2 a3 a4, of sampleDates] p n t
  have "fetchNewsOn sampleNet sampleDates ([] @ lepSource # [skySource]) 0
       = (rank sampleDates (fromFeed sampleFeed skySource),
          [FeedFailed ''Lancashire Evening Post'' ''Status code 404'',
           WroteItems (length (rank sampleDates (fromFeed sampleFeed skySource)))], 4)"
    by auto
  with s a1 a2 a3 a4 c show ?thesis by blast
qed

section \<open>Properties of the phrase tables\<close>

lemma map_of_bump:
  "map_of (bump k v m) k' =
     (if k' = k then Some ((case map_of m k of None \<Rightarrow> 0 | Some c \<Rightarrow> c) + v) else map_of m k')"
  by (simp add: bump_def map_of_mapSet)

lemma map_of_bumpAll:
  "map_of (bumpAll ks m) k =
     (if count_list ks k = 0 then map_of m k
      else Some ((case map_of m k of None \<Rightarrow> 0 | Some c \<Rightarrow> c) + count_list ks k))"
proof (induction ks arbitrary: m)
  case Nil
  then show ?case by simp
next
  case (Cons a ks)
  show ?case
    by (simp add: Cons.IH map_of_bump split: option.splits)
qed

lemma adjacentPairs_drop:
  "i + 1 < length t \<Longrightarrow>
     adjacentPairs (drop i t) = (t ! i @ '' '' @ t ! (i + 1)) # adjacentPairs (drop (Suc i) t)"
proof -
  assume a: "i + 1 < length t"
  then have "drop i t = t ! i # drop (Suc i) t" by (simp add: Cons_nth_drop_Suc)
  moreover from a have "drop (Suc i) t = t ! (Suc i) # drop (Suc (Suc i)) t"
    by (simp add: Cons_nth_drop_Suc)
  ultimately show ?thesis by simp
qed

lemma adjacentPairs_short: "\<not> i + 1 < length t \<Longrightarrow> adjacentPairs (drop i t) = []"
proof -
  assume a: "\<not> i + 1 < length t"
  show ?thesis
  proof (cases "i < length t")
    case True
    with a have "drop i t = [t ! i]"
      by (metis Cons_nth_drop_Suc Suc_eq_plus1 drop_all linorder_not_less)
    then show ?thesis by simp
  next
    case False
    then show ?thesis by simp
  qed
qed

lemma biLoop_bumpAll: "biLoop t i m = bumpAll (adjacentPairs (drop i t)) m"
proof (induction t i m rule: biLoop.induct)
  case (1 t i m)
  show ?case
  proof (cases "i + 1 < length t")
    case True
    with "1.IH" show ?thesis
      by (subst biLoop.simps) (simp add: adjacentPairs_drop)
  next
    case False
    then show ?thesis
      by (subst biLoop.simps) (simp add: adjacentPairs_short)
  qed
qed

text \<open>
  C8. For every item the bigram table is built exactly from the adjacent pairs of the
  stop-word-filtered token sequence: the count of a key is the number of adjacent
  positions of that sequence that spell it, and a key that no adjacent position spells is
  absent. On the sequence "council", "tax", "rise", "hits", "pensioners" the loop gives
  "council tax", "tax rise", "rise hits" and "hits pensioners", each with count one, and
  nothing else. A pair bridges a removed stop-word: "tax on the rise" gives "tax rise".
  (The sequence of the example is taken as given. "council" is itself a stop-word, so no
  headline yields it; the witness shows the table of the headline "Council tax rise hits
  pensioners".)
\<close>

theorem bigrams_are_adjacent_pairs:
  "map_of (snd (phrases ttl smry)) k =
     (if count_list (adjacentPairs (contentTokens ttl smry)) k = 0 then None
      else Some (count_list (adjacentPairs (contentTokens ttl smry)) k))
   \<and> biLoop [''council'', ''tax'', ''rise'', ''hits'', ''pensioners''] 0 []
       = [(''council tax'', 1), (''tax rise'', 1), (''rise hits'', 1), (''hits pensioners'', 1)]
   \<and> contentTokens (Str ''tax on the rise'') (Str []) = [''tax'', ''rise'']
   \<and> snd (phrases (Str ''tax on the rise'') (Str [])) = [(''tax rise'', 1)]"
proof -
  have 1: "map_of (snd (phrases ttl smry)) k =
     (if count_list (adjacentPairs (contentTokens ttl smry)) k = 0 then None
      else Some (count_list (adjacentPairs (contentTokens ttl smry)) k))"
    by (simp add: phrases_def contentTokens_def Let_def biLoop_bumpAll map_of_bumpAll)
  have 2: "biLoop [''council'', ''tax'', ''rise'', ''hits'', ''pensioners''] 0 []
       = [(''council tax'', 1), (''tax rise'', 1), (''rise hits'', 1), (''hits pensioners'', 1)]"
    by code_simp
  have 3: "contentTokens (Str ''tax on the rise'') (Str []) = [''tax'', ''rise'']"
    by code_simp
  have 4: "snd (phrases (Str ''tax on the rise'') (Str [])) = [(''tax rise'', 1)]"
    by code_simp
  from 1 2 3 4 show ?thesis by blast
qed

theorem bigrams_are_adjacent_pairs_witness:
  "contentTokens (Str ''Council tax rise hits pensioners'') (Str [])
     = [''tax'', ''rise'', ''hits'', ''pensioners'']
   \<and> map_of (snd (phrases (Str ''Council tax rise hits pensioners'') (Str []))) ''tax rise'' = Some 1
   \<and> map_of (snd (phrases (Str ''Council tax rise hits pensioners'') (Str []))) ''council tax'' = None"
proof -
  have c: "contentTokens (Str ''Council tax rise hits pensioners'') (Str [])
             = [''tax'', ''rise'', ''hits'', ''pensioners'']"
    by code_simp
  have n1: "count_list (adjacentPairs [''tax'', ''rise'', ''hits'', ''pensioners'']) ''tax rise'' = 1"
    by code_simp
  have n2: "count_list (adjacentPairs [''tax'', ''rise'', ''hits'', ''pensioners'']) ''council tax'' = 0"
    by code_simp
  from bigrams_are_adjacent_pairs [of "Str ''Council tax rise hits pensioners''" "Str []" "''tax rise''"]
  have 1: "map_of (snd (phrases (Str ''Council tax rise hits pensioners'') (Str []))) ''tax rise'' = Some 1"
    by (simp only: c n1) simp
  from bigrams_are_adjacent_pairs [of "Str ''Council tax rise hits pensioners''" "Str []" "''council tax''"]
  have 2: "map_of (snd (phrases (Str ''Council tax rise hits pensioners'') (Str []))) ''council tax'' = None"
    by (simp only: c n2) simp
  from c 1 2 show ?thesis by blast
qed

section \<open>Properties of the areas\<close>

lemma areaOf_singles:
  "w \<in> set (singles (areaOf e)) \<Longrightarrow> i \<in> set (issues (areaOf e)) \<Longrightarrow> \<not> includesStr i w"
  by (auto simp: areaOf_def Let_def some_iff)

lemma includes_left: "includesStr (x @ '' '' @ y) x"
  unfolding includesStr_def sublist_def
  by (rule exI [of _ "[]"], rule exI [of _ "'' '' @ y"]) simp

lemma includes_right: "includesStr (x @ '' '' @ y) y"
proof -
  have "sublist y ((x @ '' '') @ y @ [])" by (rule sublist_appendI)
  then show ?thesis by (simp add: includesStr_def)
qed

text \<open>
  C9. In every area of the output no keyword is a substring of a selected issue phrase;
  in particular neither of the two words that compose a selected issue appears among the
  keywords of that area.
\<close>

theorem keywords_not_in_issues:
  assumes "analyseNews_main U its = Inr areas" and "a \<in> set areas"
  shows "(\<forall>w \<in> set (singles a). \<forall>i \<in> set (issues a). \<not> includesStr i w)
         \<and> (\<forall>x y. x @ '' '' @ y \<in> set (issues a) \<longrightarrow> x \<notin> set (singles a) \<and> y \<notin> set (singles a))"
proof -
  from assms obtain buckets where "a \<in> set (map areaOf buckets)"
    by (auto simp: analyseNews_main_def set_sortJS split: sum.splits)
  then obtain e where a: "a = areaOf e" by auto
  have 1: "\<forall>w \<in> set (singles a). \<forall>i \<in> set (issues a). \<not> includesStr i w"
    using a areaOf_singles by blast
  have 2: "\<forall>x y. x @ '' '' @ y \<in> set (issues a) \<longrightarrow> x \<notin> set (singles a) \<and> y \<notin> set (singles a)"
    using 1 includes_left includes_right by blast
  from 1 2 show ?thesis by blast
qed

theorem keywords_not_in_issues_witness:
  "analyseNews_main sampleUrl [itemTrams, itemBus]
     = Inr [\<lparr>place = Place ''Wigan'', sampleCount = 2, issues = [''wigan bus''], singles = [''trams''],
             examples = [exampleOf itemTrams, exampleOf itemBus]\<rparr>]
   \<and> \<not> includesStr ''wigan bus'' ''trams''
   \<and> ''wigan'' \<notin> set [''trams''] \<and> ''bus'' \<notin> set [''trams'']"
proof -
  have e: "analyseNews_main sampleUrl [itemTrams, itemBus]
     = Inr [\<lparr>place = Place ''Wigan'', sampleCount = 2, issues = [''wigan bus''], singles = [''trams''],
             examples = [exampleOf itemTrams, exampleOf itemBus]\<rparr>]"
    by code_simp
  have m: "\<lparr>place = Place ''Wigan'', sampleCount = 2, issues = [''wigan bus''], singles = [''trams''],
             examples = [exampleOf itemTrams, exampleOf itemBus]\<rparr>
           \<in> set [\<lparr>place = Place ''Wigan'', sampleCount = 2, issues = [''wigan bus''], singles = [''trams''],
             examples = [exampleOf itemTrams, exampleOf itemBus]\<rparr>]" by simp
  from keywords_not_in_issues [OF e m] have "\<not> includesStr ''wigan bus'' ''trams''
   \<and> ''wigan'' \<notin> set [''trams''] \<and> ''bus'' \<notin> set [''trams'']"
    by simp
  with e show ?thesis by blast
qed

section \<open>Properties of place inference\<close>

text \<open>On an item of the shape the fetch script writes, \<open>inferPlaces\<close> is its four steps.\<close>

lemma hostnameOf_Inr: "\<exists>h. hostnameOf U url = Inr h"
  by (cases "U url") (simp_all add: hostnameOf_def)

lemma inferPlaces_item:
  "inferPlaces U it =
     (case hostnameOf U (orEmpty (link it)) of
        Inl e \<Rightarrow> Inl e
      | Inr host \<Rightarrow> Inr (fromSource it (fromHost host (fromHeadline it))))"
  by (simp add: inferPlaces_def inferPlacesJson_def jsonOf_def templateOrEmpty_def
      hostnameOfLink_def trimOrEmpty_def fromSource_def fromHeadline_def headline_def
      split: sum.splits)

text \<open>
  C10, as the claim states it, fails: \<open>inferPlaces\<close> is not total on arbitrary item
  records. On a record whose \<open>source\<close> is the number 42 the call of \<open>trim\<close> throws a
  \<open>TypeError\<close>, and so does reading the title of an element that is \<open>null\<close>.
\<close>

theorem inferPlaces_nonstring_source_counterexample:
  "inferPlacesJson sampleUrl
     (Some \<lparr>jsonTitle = Plain (Str ''Wigan bus''), jsonLink = Plain Undefined,
            jsonSource = Other True (Inr ''42''), jsonSummary = Plain (Str [])\<rparr>)
     = Inl (Error ''TypeError: trim is not a function'')
   \<and> inferPlacesJson sampleUrl None = Inl (Error ''TypeError: Cannot read properties of null'')"
  by code_simp

text \<open>
  C10, amended. \<open>inferPlaces\<close> is total on the item records whose title, summary and
  source are each a string, \<open>null\<close> or absent: it returns a list of places whatever the
  link is, be it missing, empty, malformed or not a string. When the link is a string
  that is not a parseable URL (or is missing or \<open>null\<close>), \<open>hostnameOf\<close> returns the
  empty string and the host name contributes no place: the result is that of the text and
  the source alone. So \<open>inferPlaces\<close> is total on the items the fetch script writes.
\<close>

theorem inferPlaces_total:
  "(\<exists>ps. inferPlacesJson U
            (Some \<lparr>jsonTitle = Plain t, jsonLink = l, jsonSource = Plain c, jsonSummary = Plain s\<rparr>)
          = Inr ps)
   \<and> (\<forall>e. U (orEmpty p) = Inl e \<longrightarrow>
         hostnameOf U (orEmpty p) = Inr [] \<and>
         inferPlacesJson U
            (Some \<lparr>jsonTitle = Plain t, jsonLink = Plain p, jsonSource = Plain c, jsonSummary = Plain s\<rparr>)
          = Inr (fromSourceName (trim (orEmpty c)) (fromText (orEmpty t @ '' '' @ orEmpty s))))
   \<and> (\<exists>ps. inferPlaces U it = Inr ps)"
proof -
  have h: "\<exists>host. hostnameOfLink U l = Inr host"
    using hostnameOf_Inr [of U] by (auto simp: hostnameOfLink_def split: jsonval.splits sum.splits)
  then have 1: "\<exists>ps. inferPlacesJson U
            (Some \<lparr>jsonTitle = Plain t, jsonLink = l, jsonSource = Plain c, jsonSummary = Plain s\<rparr>)
          = Inr ps"
    by (auto simp: inferPlacesJson_def templateOrEmpty_def trimOrEmpty_def)
  have 2: "\<forall>e. U (orEmpty p) = Inl e \<longrightarrow>
         hostnameOf U (orEmpty p) = Inr [] \<and>
         inferPlacesJson U
            (Some \<lparr>jsonTitle = Plain t, jsonLink = Plain p, jsonSource = Plain c, jsonSummary = Plain s\<rparr>)
          = Inr (fromSourceName (trim (orEmpty c)) (fromText (orEmpty t @ '' '' @ orEmpty s)))"
    by (simp add: inferPlacesJson_def templateOrEmpty_def trimOrEmpty_def hostnameOfLink_def
        hostnameOf_def fromHost_def)
  have 3: "\<exists>ps. inferPlaces U it = Inr ps"
    using hostnameOf_Inr [of U "orEmpty (link it)"] by (auto simp: inferPlaces_item)
  from 1 2 3 show ?thesis by blast
qed

theorem inferPlaces_total_witness:
  "inferPlacesJson sampleUrl
     (Some \<lparr>jsonTitle = Plain (Str ''Wigan bus''), jsonLink = Other True (Inr ''42''),
            jsonSource = Plain Null, jsonSummary = Plain (Str [])\<rparr>)
     = Inr [Place ''Wigan'']
   \<and> sampleUrl (orEmpty (Str ''not a url'')) = Inl (Error ''Invalid URL'')
   \<and> hostnameOf sampleUrl (orEmpty (Str ''not a url'')) = Inr []
   \<and> inferPlacesJson sampleUrl
       (Some \<lparr>jsonTitle = Plain (Str ''Wigan bus''), jsonLink = Plain (Str ''not a url''),
              jsonSource = Plain Null, jsonSummary = Plain (Str [])\<rparr>)
       = Inr [Place ''Wigan'']
   \<and> inferPlaces sampleUrl itemBus = Inr [Place ''Wigan'']"
proof -
  have a: "inferPlacesJson sampleUrl
     (Some \<lparr>jsonTitle = Plain (Str ''Wigan bus''), jsonLink = Other True (Inr ''42''),
            jsonSource = Plain Null, jsonSummary = Plain (Str [])\<rparr>)
     = Inr [Place ''Wigan'']"
    by code_simp
  have h: "sampleUrl (orEmpty (Str ''not a url'')) = Inl (Error ''Invalid URL'')" by code_simp
  have v: "fromSourceName (trim (orEmpty Null)) (fromText (orEmpty (Str ''Wigan bus'') @ '' '' @ orEmpty (Str [])))
             = [Place ''Wigan'']"
    by code_simp
  have b: "inferPlaces sampleUrl itemBus = Inr [Place ''Wigan'']" by code_simp
  from inferPlaces_total [of sampleUrl "Str ''Wigan bus''" "Other True (Inr ''42'')" Null "Str []"
      "Str ''not a url''" itemBus] h v
  have 2: "hostnameOf sampleUrl (orEmpty (Str ''not a url'')) = Inr []
     \<and> inferPlacesJson sampleUrl
       (Some \<lparr>jsonTitle = Plain (Str ''Wigan bus''), jsonLink = Plain (Str ''not a url''),
              jsonSource = Plain Null, jsonSummary = Plain (Str [])\<rparr>)
       = Inr [Place ''Wigan'']"
    by simp
  from a h 2 b show ?thesis by blast
qed

lemma mapSet_fresh: "k \<notin> fst ` set m \<Longrightarrow> mapSet k v m = m @ [(k, v)]"
  by (induction m) auto

lemma map_of_None_iff: "map_of m k = None \<longleftrightarrow> k \<notin> fst ` set m"
  by (simp add: map_of_eq_None_iff)

lemma set_setAdd: "set (setAdd x a) = insert x (set a)"
  by (auto simp: setAdd_def)

lemma set_addAll: "set (addAll ps a) = Place ` set ps \<union> set a"
  by (induction ps arbitrary: a) (auto simp: set_setAdd)

lemma fromHost_mono: "set a \<subseteq> set (fromHost host a)"
  by (auto simp: fromHost_def set_setAdd split: option.splits)

lemma fromSource_mono: "set a \<subseteq> set (fromSource it a)"
  by (auto simp: fromSource_def fromSourceName_def Let_def set_setAdd set_addAll split: option.splits)

lemma inferPlaces_Inr: "inferPlaces U it = Inr (placesOf U it)"
  by (cases "U (orEmpty (link it))") (simp_all add: placesOf_def inferPlaces_item hostnameOf_def)

lemma headline_place_inferred:
  "p \<in> set (placeFromText (headline it)) \<Longrightarrow> Place p \<in> set (placesOf U it)"
proof -
  assume "p \<in> set (placeFromText (headline it))"
  then have "Place p \<in> set (fromHeadline it)"
    by (simp add: fromHeadline_def fromText_def set_addAll)
  then have "Place p \<in> set (fromSource it (fromHost h (fromHeadline it)))" for h
    using fromHost_mono fromSource_mono by blast
  then show ?thesis
    by (cases "U (orEmpty (link it))") (simp_all add: placesOf_def inferPlaces_item hostnameOf_def)
qed

lemma addItem_idem: "addItem it (addItem it m) = addItem it m"
  by (simp add: addItem_def map_of_mapSet)

lemma itemsOf_addToBucket:
  "itemsOf (addToBucket it u b bs pl) q = (if q = pl then addItem it (itemsOf bs q) else itemsOf bs q)"
  by (cases "map_of bs pl")
     (simp_all add: itemsOf_def addToBucket_def Let_def map_of_mapSet addItem_def itemKey_def)

lemma itemsOf_placesLoop:
  "itemsOf (placesLoop it u b ps bs) q =
     (if q \<in> set ps then addItem it (itemsOf bs q) else itemsOf bs q)"
proof (induction ps arbitrary: bs)
  case Nil
  then show ?case by simp
next
  case (Cons pl ps)
  then show ?case by (simp add: itemsOf_addToBucket addItem_idem)
qed

lemma present_addToBucket:
  "(map_of (addToBucket it u b bs pl) q \<noteq> None) = (q = pl \<or> map_of bs q \<noteq> None)"
  by (simp add: addToBucket_def Let_def map_of_mapSet)

lemma present_placesLoop:
  "(map_of (placesLoop it u b ps bs) q \<noteq> None) = (q \<in> set ps \<or> map_of bs q \<noteq> None)"
proof (induction ps arbitrary: bs)
  case Nil
  then show ?case by simp
next
  case (Cons pl ps)
  show ?case by (simp only: placesLoop.simps Cons.IH present_addToBucket) auto
qed

lemma distinct_addToBucket:
  "distinct (map fst bs) \<Longrightarrow> distinct (map fst (addToBucket it u b bs pl))"
  by (simp add: addToBucket_def Let_def distinct_mapSet)

lemma distinct_placesLoop:
  "distinct (map fst bs) \<Longrightarrow> distinct (map fst (placesLoop it u b ps bs))"
  by (induction ps arbitrary: bs) (simp_all add: distinct_addToBucket)

lemma bucketLoop_Cons:
  "bucketLoop U (it # rest) bs =
     bucketLoop U rest (if placesOf U it = [] then bs
                        else placesLoop it (fst (phrases (title it) (summary it)))
                               (snd (phrases (title it) (summary it))) (placesOf U it) bs)"
  by (simp add: inferPlaces_Inr split: prod.splits)

lemma bucketLoop_total: "\<exists>bs'. bucketLoop U its bs = Inr bs'"
proof (induction its arbitrary: bs)
  case Nil
  then show ?case by simp
next
  case (Cons it rest)
  show ?case by (simp only: bucketLoop_Cons Cons.IH)
qed

lemma itemsOf_bucketLoop:
  "bucketLoop U its bs = Inr bs' \<Longrightarrow> itemsOf bs' q = addItems (members U q its) (itemsOf bs q)"
proof (induction its arbitrary: bs)
  case Nil
  then show ?case by (simp add: members_def)
next
  case (Cons it rest)
  let ?bs1 = "if placesOf U it = [] then bs
              else placesLoop it (fst (phrases (title it) (summary it)))
                     (snd (phrases (title it) (summary it))) (placesOf U it) bs"
  from Cons.prems have "bucketLoop U rest ?bs1 = Inr bs'" by (simp only: bucketLoop_Cons)
  from Cons.IH [OF this] have "itemsOf bs' q = addItems (members U q rest) (itemsOf ?bs1 q)" .
  moreover have "itemsOf ?bs1 q = (if q \<in> set (placesOf U it) then addItem it (itemsOf bs q) else itemsOf bs q)"
    by (simp add: itemsOf_placesLoop)
  ultimately show ?case by (simp add: members_def)
qed

lemma present_bucketLoop:
  "bucketLoop U its bs = Inr bs' \<Longrightarrow>
     (map_of bs' q \<noteq> None) = (members U q its \<noteq> [] \<or> map_of bs q \<noteq> None)"
proof (induction its arbitrary: bs)
  case Nil
  then show ?case by (simp add: members_def)
next
  case (Cons it rest)
  let ?bs1 = "if placesOf U it = [] then bs
              else placesLoop it (fst (phrases (title it) (summary it)))
                     (snd (phrases (title it) (summary it))) (placesOf U it) bs"
  from Cons.prems have "bucketLoop U rest ?bs1 = Inr bs'" by (simp only: bucketLoop_Cons)
  from Cons.IH [OF this] have
    "(map_of bs' q \<noteq> None) = (members U q rest \<noteq> [] \<or> map_of ?bs1 q \<noteq> None)" .
  moreover have "(map_of ?bs1 q \<noteq> None) = (q \<in> set (placesOf U it) \<or> map_of bs q \<noteq> None)"
    using present_placesLoop [of it _ _ "placesOf U it" bs q] by auto
  ultimately show ?case by (auto simp: members_def)
qed

lemma distinct_bucketLoop:
  "bucketLoop U its bs = Inr bs' \<Longrightarrow> distinct (map fst bs) \<Longrightarrow> distinct (map fst bs')"
proof (induction its arbitrary: bs)
  case Nil
  then show ?case by simp
next
  case (Cons it rest)
  let ?bs1 = "if placesOf U it = [] then bs
              else placesLoop it (fst (phrases (title it) (summary it)))
                     (snd (phrases (title it) (summary it))) (placesOf U it) bs"
  from Cons.prems have "bucketLoop U rest ?bs1 = Inr bs'" by (simp only: bucketLoop_Cons)
  moreover have "distinct (map fst ?bs1)" using Cons.prems(2) by (simp add: distinct_placesLoop)
  ultimately show ?case by (rule Cons.IH)
qed

lemma keys_addItem: "fst ` set (addItem it m) = insert (itemKey it) (fst ` set m)"
  by (auto simp: addItem_def keys_mapSet map_of_None_iff)

lemma keys_addItems: "fst ` set (addItems xs m) = itemKey ` set xs \<union> fst ` set m"
  by (induction xs arbitrary: m) (auto simp: keys_addItem)

lemma distinct_addItems: "distinct (map fst m) \<Longrightarrow> distinct (map fst (addItems xs m))"
  by (induction xs arbitrary: m) (simp_all add: addItem_def distinct_mapSet)

lemma length_addItems: "length (addItems xs []) = card (itemKey ` set xs)"
proof -
  have d: "distinct (map fst (addItems xs []))" by (rule distinct_addItems) simp
  have "length (addItems xs []) = length (map fst (addItems xs []))" by simp
  also have "\<dots> = card (set (map fst (addItems xs [])))" using distinct_card [OF d] by simp
  also have "\<dots> = card (itemKey ` set xs)" using keys_addItems [of xs "[]"] by simp
  finally show ?thesis .
qed

lemma addItems_prefix: "\<exists>ys. addItems xs m = m @ ys"
proof (induction xs arbitrary: m)
  case Nil
  then show ?case by simp
next
  case (Cons it rest)
  from Cons.IH [of "addItem it m"] obtain ys where ys: "addItems rest (addItem it m) = addItem it m @ ys"
    by blast
  show ?case
  proof (cases "map_of m (itemKey it) = None")
    case True
    then have "addItem it m = m @ [(itemKey it, exampleOf it)]"
      by (simp add: addItem_def mapSet_fresh map_of_None_iff)
    with ys show ?thesis by simp
  next
    case False
    then have "addItem it m = m" by (auto simp: addItem_def)
    with ys show ?thesis by simp
  qed
qed

lemma addItems_append: "addItems (xs @ ys) m = addItems ys (addItems xs m)"
  by (induction xs arbitrary: m) simp_all

lemma addItems_first:
  assumes "itemKey it \<notin> itemKey ` set pre"
  shows "\<exists>ys. addItems (pre @ it # post) [] = addItems pre [] @ (itemKey it, exampleOf it) # ys"
proof -
  let ?m = "addItems pre []"
  have "itemKey it \<notin> fst ` set ?m" using assms keys_addItems [of pre "[]"] by simp
  then have "addItem it ?m = ?m @ [(itemKey it, exampleOf it)]"
    by (simp add: addItem_def mapSet_fresh map_of_None_iff)
  moreover obtain ys where "addItems post (addItem it ?m) = addItem it ?m @ ys"
    using addItems_prefix by blast
  ultimately show ?thesis by (simp add: addItems_append)
qed

lemma area_of_place:
  assumes "analyseNews_main U its = Inr areas" and "it \<in> set its" and "r \<in> set (placesOf U it)"
  shows "\<exists>a \<in> set areas. place a = r
           \<and> sampleCount a = card (itemKey ` set (members U r its)) \<and> 0 < sampleCount a
           \<and> (\<forall>pre post. members U r its = pre @ it # post \<and> itemKey it \<notin> itemKey ` set pre
                 \<and> card (itemKey ` set pre) < 8 \<longrightarrow> exampleOf it \<in> set (examples a))"
proof -
  obtain bs where bs: "bucketLoop U its [] = Inr bs" using bucketLoop_total by blast
  with assms(1) have areas: "set areas = areaOf ` set bs"
    by (auto simp: analyseNews_main_def set_sortJS)
  have mem: "it \<in> set (members U r its)" using assms(2,3) by (simp add: members_def)
  then have "members U r its \<noteq> []" by auto
  with present_bucketLoop [OF bs, of r] obtain bk where bk: "map_of bs r = Some bk" by auto
  have its: "items bk = addItems (members U r its) []"
    using itemsOf_bucketLoop [OF bs, of r] bk by (simp add: itemsOf_def)
  let ?a = "areaOf (r, bk)"
  have "(r, bk) \<in> set bs" using bk by (rule map_of_SomeD)
  then have in_areas: "?a \<in> set areas" using areas by blast
  have pl: "place ?a = r" by (simp add: areaOf_def Let_def)
  have sc: "sampleCount ?a = card (itemKey ` set (members U r its))"
    by (simp add: areaOf_def Let_def its length_addItems)
  have "itemKey it \<in> itemKey ` set (members U r its)" using mem by blast
  then have "0 < card (itemKey ` set (members U r its))"
    by (auto simp: card_gt_0_iff)
  with sc have pos: "0 < sampleCount ?a" by simp
  have ex: "exampleOf it \<in> set (examples ?a)"
    if h: "members U r its = pre @ it # post" "itemKey it \<notin> itemKey ` set pre"
          "card (itemKey ` set pre) < 8" for pre post
  proof -
    from addItems_first [OF h(2), of post] h(1) its obtain ys where
      ys: "items bk = addItems pre [] @ (itemKey it, exampleOf it) # ys" by auto
    have "length (addItems pre []) < 8" using h(3) by (simp add: length_addItems)
    then have "exampleOf it \<in> set (take 8 (map snd (items bk)))"
      unfolding ys by (auto simp: take_Cons' in_set_conv_decomp)
    then show ?thesis by (simp add: areaOf_def Let_def)
  qed
  from in_areas pl sc pos ex show ?thesis by blast
qed

text \<open>
  C7, as the specification states it, fails: the examples of a bucket are its first
  eight items. Of nine items that name Bolton and Wigan, each with its own link, the ninth
  is counted in both buckets (\<open>sampleCount\<close> is 9) but appears in the examples of
  neither.
\<close>

theorem ninth_item_counterexample:
  "test (wordRx ''Bolton'') (headline (bwItem ''i''))
   \<and> test (wordRx ''Wigan'') (headline (bwItem ''i''))
   \<and> bwItem ''i'' \<in> set nineItems
   \<and> inferPlaces sampleUrl (bwItem ''i'') = Inr [Place ''Bolton'', Place ''Wigan'']
   \<and> analyseNews_main sampleUrl nineItems
       = Inr [\<lparr>place = Place ''Bolton'', sampleCount = 9, issues = [''bolton wigan''], singles = [],
               examples = map exampleOf (take 8 nineItems)\<rparr>,
              \<lparr>place = Place ''Wigan'', sampleCount = 9, issues = [''bolton wigan''], singles = [],
               examples = map exampleOf (take 8 nineItems)\<rparr>]
   \<and> exampleOf (bwItem ''i'') \<notin> set (map exampleOf (take 8 nineItems))"
  by code_simp

text \<open>
  C7, amended. For every item whose headline text holds two distinct configured place
  names as whole words, \<open>inferPlaces\<close> returns both places and both places have an area
  in the output. The \<open>sampleCount\<close> of each of the two areas is the number of distinct
  keys (the link, or the title when there is no link) among the items of that place, so
  the item is counted, once together with the items that share its key. The item appears
  in the \<open>examples\<close> of the area when it is the first item of that place with its key
  and fewer than eight distinct keys come before it.
\<close>

theorem item_joins_both_buckets:
  assumes "it \<in> set its"
      and "p \<in> set PLACES" and "test (wordRx p) (headline it)"
      and "q \<in> set PLACES" and "test (wordRx q) (headline it)"
      and "p \<noteq> q"
  shows "\<exists>ps areas. inferPlaces U it = Inr ps \<and> Place p \<in> set ps \<and> Place q \<in> set ps
           \<and> analyseNews_main U its = Inr areas
           \<and> (\<forall>r \<in> {Place p, Place q}. \<exists>a \<in> set areas. place a = r
                 \<and> sampleCount a = card (itemKey ` set (members U r its)) \<and> 0 < sampleCount a
                 \<and> (\<forall>pre post. members U r its = pre @ it # post
                       \<and> itemKey it \<notin> itemKey ` set pre \<and> card (itemKey ` set pre) < 8
                       \<longrightarrow> exampleOf it \<in> set (examples a)))"
proof -
  have p: "Place p \<in> set (placesOf U it)"
    using assms(2,3) by (intro headline_place_inferred) (simp add: placeFromText_def)
  have q: "Place q \<in> set (placesOf U it)"
    using assms(4,5) by (intro headline_place_inferred) (simp add: placeFromText_def)
  obtain bs where "bucketLoop U its [] = Inr bs" using bucketLoop_total by blast
  then obtain areas where areas: "analyseNews_main U its = Inr areas"
    by (simp add: analyseNews_main_def)
  have "\<forall>r \<in> {Place p, Place q}. \<exists>a \<in> set areas. place a = r
                 \<and> sampleCount a = card (itemKey ` set (members U r its)) \<and> 0 < sampleCount a
                 \<and> (\<forall>pre post. members U r its = pre @ it # post
                       \<and> itemKey it \<notin> itemKey ` set pre \<and> card (itemKey ` set pre) < 8
                       \<longrightarrow> exampleOf it \<in> set (examples a))"
    using area_of_place [OF areas assms(1) p] area_of_place [OF areas assms(1) q] by blast
  with p q areas inferPlaces_Inr [of U it] show ?thesis by blast
qed

theorem item_joins_both_buckets_witness:
  "bwItem ''b'' \<in> set [bwItem ''a'', bwItem ''b'']
   \<and> ''Bolton'' \<in> set PLACES \<and> test (wordRx ''Bolton'') (headline (bwItem ''b''))
   \<and> ''Wigan'' \<in> set PLACES \<and> test (wordRx ''Wigan'') (headline (bwItem ''b''))
   \<and> ''Bolton'' \<noteq> ''Wigan''
   \<and> members sampleUrl (Place ''Bolton'') [bwItem ''a'', bwItem ''b''] = [bwItem ''a''] @ bwItem ''b'' # []
   \<and> itemKey (bwItem ''b'') \<notin> itemKey ` set [bwItem ''a'']
   \<and> (\<exists>ps areas. inferPlaces sampleUrl (bwItem ''b'') = Inr ps
         \<and> Place ''Bolton'' \<in> set ps \<and> Place ''Wigan'' \<in> set ps
         \<and> analyseNews_main sampleUrl [bwItem ''a'', bwItem ''b''] = Inr areas
         \<and> (\<forall>r \<in> {Place ''Bolton'', Place ''Wigan''}. \<exists>a \<in> set areas. place a = r
               \<and> sampleCount a = card (itemKey ` set (members sampleUrl r [bwItem ''a'', bwItem ''b'']))
               \<and> 0 < sampleCount a
               \<and> (\<forall>pre post. members sampleUrl r [bwItem ''a'', bwItem ''b''] = pre @ bwItem ''b'' # post
                     \<and> itemKey (bwItem ''b'') \<notin> itemKey ` set pre \<and> card (itemKey ` set pre) < 8
                     \<longrightarrow> exampleOf (bwItem ''b'') \<in> set (examples a))))"
proof -
  have 1: "bwItem ''b'' \<in> set [bwItem ''a'', bwItem ''b'']" by simp
  have 2: "''Bolton'' \<in> set PLACES" by code_simp
  have 3: "test (wordRx ''Bolton'') (headline (bwItem ''b''))" by code_simp
  have 4: "''Wigan'' \<in> set PLACES" by code_simp
  have 5: "test (wordRx ''Wigan'') (headline (bwItem ''b''))" by code_simp
  have 6: "''Bolton'' \<noteq> ''Wigan''" by simp
  have 7: "members sampleUrl (Place ''Bolton'') [bwItem ''a'', bwItem ''b''] = [bwItem ''a''] @ bwItem ''b'' # []"
    by code_simp
  have 8: "itemKey (bwItem ''b'') \<notin> itemKey ` set [bwItem ''a'']"
    by (simp add: itemKey_def bwItem_def orElse_def truthy_def)
  from 1 2 3 4 5 6 7 8 item_joins_both_buckets [OF 1 2 3 4 5 6, of sampleUrl] show ?thesis
    by blast
qed

end
